(* ===== verification/Go_Prelude.thy ===== *)
theory Go_Prelude
  imports Main "HOL-Library.Word"
begin

section \<open>Prelude: the parts of Go the components share\<close>

text \<open>
  The fragment of the Go language and of its \<^verbatim>\<open>strings\<close> package that several components
  of the repository use, and the generic lemmas their proofs share:
  \<^item> machine integers: \<^verbatim>\<open>int\<close> and \<^verbatim>\<open>int64\<close> are 64 bits wide and wrap around; a value is
    an \<open>int\<close> in the signed range and every arithmetic step that can leave the range is
    passed through \<open>wrap64\<close>;
  \<^item> strings are byte strings (\<open>string\<close> is a list of 8-bit characters, as in Go) and byte
    slices are \<open>byte list\<close>;
  \<^item> a Go map is a partial function; \<^verbatim>\<open>for k := range m\<close> visits the keys of \<^verbatim>\<open>m\<close> in an
    unspecified order, which the models take as an argument (\<open>range_keys\<close>), so that a
    theorem that holds for every such argument holds for every order the runtime may choose;
  \<^item> panics are values: \<open>outcome\<close>.
\<close>

named_theorems go_defs \<open>definitions that evaluation and case analysis unfold\<close>

type_synonym byte = "8 word"
type_synonym bytes = "byte list"

datatype 'a outcome = Panic | Return 'a

subsection \<open>64-bit signed integers\<close>

definition wrap64 :: "int \<Rightarrow> int" where
  "wrap64 x = (x + 2 ^ 63) mod 2 ^ 64 - 2 ^ 63"

abbreviation int64_range :: "int \<Rightarrow> bool" where
  "int64_range x \<equiv> - (2 ^ 63) \<le> x \<and> x < 2 ^ 63"

text \<open>Go's integer division truncates towards zero.\<close>

definition quot :: "int \<Rightarrow> int \<Rightarrow> int" where
  "quot a b = sgn a * sgn b * (\<bar>a\<bar> div \<bar>b\<bar>)"

subsection \<open>Slices\<close>

text \<open>\<^verbatim>\<open>xs[i:j]\<close> panics unless \<^verbatim>\<open>0 <= i <= j <= len(xs)\<close>.\<close>

definition go_slice :: "int \<Rightarrow> int \<Rightarrow> 'a list \<Rightarrow> 'a list outcome" where
  "go_slice i j xs =
     (if 0 \<le> i \<and> i \<le> j \<and> j \<le> int (length xs)
      then Return (take (nat (j - i)) (drop (nat i) xs)) else Panic)"

subsection \<open>Iterating over a map\<close>

definition range_keys :: "'k list \<Rightarrow> ('k \<rightharpoonup> 'v) \<Rightarrow> 'k list" where
  "range_keys ord m = filter (\<lambda>k. m k \<noteq> None) (remdups ord)"

definition covers :: "'k list \<Rightarrow> ('k \<rightharpoonup> 'v) \<Rightarrow> bool" where
  "covers ord m \<longleftrightarrow> dom m \<subseteq> set ord"

subsection \<open>Strings\<close>

definition HasPrefix :: "string \<Rightarrow> string \<Rightarrow> bool" where
  "HasPrefix s p \<longleftrightarrow> take (length p) s = p"

definition HasSuffix :: "string \<Rightarrow> string \<Rightarrow> bool" where
  "HasSuffix s p \<longleftrightarrow> length p \<le> length s \<and> drop (length s - length p) s = p"

definition TrimSuffix :: "string \<Rightarrow> string \<Rightarrow> string" where
  "TrimSuffix s p = (if HasSuffix s p then take (length s - length p) s else s)"

fun StrContains :: "string \<Rightarrow> string \<Rightarrow> bool" where
  "StrContains [] p \<longleftrightarrow> p = []"
| "StrContains (c # s) p \<longleftrightarrow> HasPrefix (c # s) p \<or> StrContains s p"

text \<open>\<^verbatim>\<open>strings.Split\<close> at a one-character separator.\<close>

fun Split :: "char \<Rightarrow> string \<Rightarrow> string list" where
  "Split sep [] = [[]]"
| "Split sep (c # s) =
     (if c = sep then [] # Split sep s
      else (case Split sep s of [] \<Rightarrow> [[c]] | w # ws \<Rightarrow> (c # w) # ws))"

text \<open>\<^verbatim>\<open>strings.LastIndex\<close> and \<^verbatim>\<open>strings.Index\<close> at a one-character pattern: \<open>None\<close> is -1.\<close>

fun IndexChar :: "char \<Rightarrow> string \<Rightarrow> nat option" where
  "IndexChar ch [] = None"
| "IndexChar ch (c # s) = (if c = ch then Some 0 else map_option Suc (IndexChar ch s))"

fun LastIndexChar :: "char \<Rightarrow> string \<Rightarrow> nat option" where
  "LastIndexChar ch [] = None"
| "LastIndexChar ch (c # s) =
     (case LastIndexChar ch s of
        Some i \<Rightarrow> Some (Suc i)
      | None \<Rightarrow> if c = ch then Some 0 else None)"

text \<open>\<^verbatim>\<open>strings.ToLower\<close> on ASCII letters.\<close>

definition lower_char :: "char \<Rightarrow> char" where
  "lower_char c =
     (let n = (of_char c :: nat) in if 65 \<le> n \<and> n \<le> 90 then char_of (n + 32) else c)"

definition ToLower :: "string \<Rightarrow> string" where
  "ToLower s = map lower_char s"

definition bytes_of :: "string \<Rightarrow> bytes" where
  "bytes_of s = map of_char s"

text \<open>Decimal printing, \<^verbatim>\<open>%d\<close>.\<close>

definition digit_char :: "nat \<Rightarrow> char" where
  "digit_char d = char_of (48 + d)"

fun show_nat :: "nat \<Rightarrow> string" where
  "show_nat n =
     (if n < 10 then [digit_char n] else show_nat (n div 10) @ [digit_char (n mod 10)])"

definition show_int :: "int \<Rightarrow> string" where
  "show_int i = (if i < 0 then ''-'' @ show_nat (nat (- i)) else show_nat (nat i))"

declare show_nat.simps [simp del]

subsection \<open>Lemmas on 64-bit integers\<close>

lemma wrap64_range: "int64_range (wrap64 x)"
proof -
  have "0 \<le> (x + 2 ^ 63) mod 2 ^ 64" and "(x + 2 ^ 63) mod 2 ^ 64 < 2 ^ 64"
    by simp_all
  then show ?thesis by (simp add: wrap64_def)
qed

lemma wrap64_id: "int64_range x \<Longrightarrow> wrap64 x = x"
  by (simp add: wrap64_def)

lemma wrap64_small: "0 \<le> x \<Longrightarrow> x < 9223372036854775808 \<Longrightarrow> wrap64 x = x"
  by (rule wrap64_id) simp

lemma wrap64_mod:
  "wrap64 x = (if x mod 2 ^ 64 < 2 ^ 63 then x mod 2 ^ 64 else x mod 2 ^ 64 - 2 ^ 64)"
proof -
  define r where "r = x mod 2 ^ 64"
  have r: "0 \<le> r" "r < 2 ^ 64" by (simp_all add: r_def)
  have eq: "wrap64 x = (r + 2 ^ 63) mod 2 ^ 64 - 2 ^ 63" by (simp add: wrap64_def r_def mod_simps)
  show ?thesis
  proof (cases "r < 2 ^ 63")
    case True
    then show ?thesis unfolding eq r_def [symmetric] using r by (simp add: mod_pos_pos_trivial)
  next
    case False
    have "(r + 2 ^ 63) mod 2 ^ 64 = (r - 2 ^ 63) mod (2 ^ 64 :: int)"
      using mod_add_self2 [of "r - 2 ^ 63" "2 ^ 64 :: int"] by (simp add: add.commute)
    also have "\<dots> = r - 2 ^ 63" using r False by (intro mod_pos_pos_trivial) simp_all
    finally show ?thesis unfolding eq r_def [symmetric] using False by simp
  qed
qed

lemma quot_nonneg: "0 \<le> a \<Longrightarrow> 0 < b \<Longrightarrow> quot a b = a div b"
  by (cases "a = 0") (simp_all add: quot_def)

subsection \<open>Lemmas on range loops\<close>

lemma set_range_keys [simp]: "set (range_keys ord m) = set ord \<inter> dom m"
  by (auto simp: range_keys_def)

lemma distinct_range_keys [simp]: "distinct (range_keys ord m)"
  by (simp add: range_keys_def)

lemma set_range_keys_covers: "covers ord m \<Longrightarrow> set (range_keys ord m) = dom m"
  by (auto simp: covers_def)

lemma covers_subset: "covers ord m \<Longrightarrow> dom m' \<subseteq> dom m \<Longrightarrow> covers ord m'"
  by (auto simp: covers_def)

text \<open>
  A range loop whose body only reads and writes what belongs to the current key computes
  every key's entry on its own, whatever the order. \<open>get s k\<close> is the part of the state that
  belongs to \<open>k\<close>, \<open>body k\<close> the loop body and \<open>g k\<close> what the body does to that part.
\<close>

locale keyed_loop =
  fixes get :: "'s \<Rightarrow> 'k \<Rightarrow> 'a"
    and body :: "'k \<Rightarrow> 's \<Rightarrow> 's"
    and g :: "'k \<Rightarrow> 'a \<Rightarrow> 'a"
  assumes get_same: "get (body k s) k = g k (get s k)"
    and get_other: "k' \<noteq> k \<Longrightarrow> get (body k s) k' = get s k'"
begin

lemma get_fold:
  "distinct ks \<Longrightarrow> get (fold body ks s) k = (if k \<in> set ks then g k (get s k) else get s k)"
proof (induction ks arbitrary: s)
  case (Cons a ks)
  then show ?case by (cases "k = a") (auto simp: get_same get_other)
qed simp

lemma get_fold_order:
  assumes "distinct ks" and "distinct ks'" and "set ks = set ks'"
  shows "get (fold body ks s) k = get (fold body ks' s) k"
  using assms by (simp add: get_fold)

end

text \<open>
  A component as a transition system with an invariant: \<open>init\<close> holds of the states the
  constructor returns, \<open>step\<close> relates a state to the states one operation can lead to.
  Clients get the invariant in every reachable state.
\<close>

locale invariant_system =
  fixes init :: "'s \<Rightarrow> bool"
    and step :: "'s \<Rightarrow> 's \<Rightarrow> bool"
    and inv :: "'s \<Rightarrow> bool"
  assumes init_inv: "init s \<Longrightarrow> inv s"
    and step_inv: "inv s \<Longrightarrow> step s t \<Longrightarrow> inv t"
begin

lemma steps_inv: "step\<^sup>*\<^sup>* s t \<Longrightarrow> inv s \<Longrightarrow> inv t"
  by (induction rule: rtranclp_induct) (auto intro: step_inv)

lemma reachable_inv: "init s \<Longrightarrow> step\<^sup>*\<^sup>* s t \<Longrightarrow> inv t"
  using init_inv steps_inv by blast

end

text \<open>
  A system whose steps are runs of a more abstract one, as long as the invariant holds.
\<close>

locale simulation = invariant_system init step inv
  for init :: "'s \<Rightarrow> bool" and step :: "'s \<Rightarrow> 's \<Rightarrow> bool" and inv :: "'s \<Rightarrow> bool" +
  fixes abs :: "'s \<Rightarrow> 'a"
    and astep :: "'a \<Rightarrow> 'a \<Rightarrow> bool"
  assumes step_sim: "inv s \<Longrightarrow> step s t \<Longrightarrow> astep\<^sup>*\<^sup>* (abs s) (abs t)"
begin

lemma steps_sim: "step\<^sup>*\<^sup>* s t \<Longrightarrow> inv s \<Longrightarrow> astep\<^sup>*\<^sup>* (abs s) (abs t)"
proof (induction rule: rtranclp_induct)
  case (step t u)
  then have "astep\<^sup>*\<^sup>* (abs t) (abs u)" using step_sim steps_inv by blast
  with step show ?case by auto
qed simp

lemma reachable_sim: "init s \<Longrightarrow> step\<^sup>*\<^sup>* s t \<Longrightarrow> astep\<^sup>*\<^sup>* (abs s) (abs t)"
  using init_inv steps_sim by blast

end

subsection \<open>Cutting a list into blocks\<close>

text \<open>Block \<open>i\<close> of a list cut into blocks of \<open>n\<close> elements: pages of a listing, chunks of a file.\<close>

definition block :: "nat \<Rightarrow> 'a list \<Rightarrow> nat \<Rightarrow> 'a list" where
  "block n xs i = take n (drop (i * n) xs)"

lemma length_block: "length (block n xs i) = min n (length xs - i * n)"
  by (simp add: block_def)

lemma concat_blocks: "concat (map (block n xs) [0..<k]) = take (k * n) xs"
  by (induction k) (simp_all add: block_def take_add [symmetric] add.commute)

lemma concat_all_blocks: "length xs \<le> k * n \<Longrightarrow> concat (map (block n xs) [0..<k]) = xs"
  by (simp add: concat_blocks)

lemma go_slice_block:
  "0 \<le> i \<Longrightarrow> i \<le> j \<Longrightarrow> j \<le> int (length xs) \<Longrightarrow>
     go_slice i j xs = Return (take (nat j - nat i) (drop (nat i) xs))"
  by (simp add: go_slice_def nat_diff_distrib)

subsection \<open>Lemmas on strings\<close>

lemma Split_not_Nil [simp]: "Split sep s \<noteq> []"
  by (cases s) (auto split: list.splits)

lemma Split_no_sep: "w \<in> set (Split sep s) \<Longrightarrow> sep \<notin> set w"
  by (induction s arbitrary: w) (auto split: if_splits list.splits)

lemma length_Split: "length (Split sep s) = Suc (count_list s sep)"
  by (induction s) (auto split: list.splits)

lemma Split_single: "sep \<notin> set s \<Longrightarrow> Split sep s = [s]"
  by (induction s) auto

lemma Split_append_sep: "sep \<notin> set s \<Longrightarrow> Split sep (s @ sep # t) = s # Split sep t"
  by (induction s) auto

lemma IndexChar_None: "IndexChar ch s = None \<longleftrightarrow> ch \<notin> set s"
  by (induction s) auto

lemma LastIndexChar_None: "LastIndexChar ch s = None \<longleftrightarrow> ch \<notin> set s"
  by (induction s) (auto split: option.splits)

lemma LastIndexChar_append:
  "ch \<notin> set t \<Longrightarrow> LastIndexChar ch (s @ ch # t) = Some (length s)"
proof (induction s)
  case Nil
  then have "LastIndexChar ch t = None" by (simp add: LastIndexChar_None)
  then show ?case by simp
qed simp

lemma LastIndexChar_SomeD:
  "LastIndexChar ch s = Some i \<Longrightarrow>
     i < length s \<and> s ! i = ch \<and> ch \<notin> set (drop (Suc i) s)"
proof (induction s arbitrary: i)
  case (Cons c s)
  then show ?case
    by (cases "LastIndexChar ch s") (auto simp: LastIndexChar_None split: if_splits)
qed simp

lemma HasPrefix_append [simp]: "HasPrefix (p @ s) p"
  by (simp add: HasPrefix_def)

lemma HasPrefix_iff: "HasPrefix s p \<longleftrightarrow> (\<exists>t. s = p @ t)"
  by (metis HasPrefix_append HasPrefix_def append_take_drop_id)

subsection \<open>Decimal numerals\<close>

lemma show_nat_not_Nil [simp]: "show_nat n \<noteq> []"
  by (subst show_nat.simps) simp

lemma show_nat_small: "n < 10 \<Longrightarrow> show_nat n = [digit_char n]"
  by (subst show_nat.simps) simp

lemma show_nat_big: "\<not> n < 10 \<Longrightarrow> show_nat n = show_nat (n div 10) @ [digit_char (n mod 10)]"
  by (subst show_nat.simps) simp

lemma last_show_nat: "last (show_nat n) = digit_char (n mod 10)"
  by (cases "n < 10") (simp_all add: show_nat_small show_nat_big)

lemma of_char_digit: "d < 10 \<Longrightarrow> of_char (digit_char d) = (48 + d :: nat)"
  by (simp add: digit_char_def of_char_of)

lemma digit_char_inj: "digit_char a = digit_char b \<Longrightarrow> a < 10 \<Longrightarrow> b < 10 \<Longrightarrow> a = b"
  by (metis of_char_digit add_left_cancel)

lemma length_show_nat: "length (show_nat n) = 1 \<longleftrightarrow> n < 10"
  by (cases "n < 10") (simp_all add: show_nat_small show_nat_big)

lemma show_nat_inj: "show_nat m = show_nat n \<Longrightarrow> m = n"
proof (induction m arbitrary: n rule: less_induct)
  case (less m)
  have mod: "m mod 10 = n mod 10"
    using less.prems last_show_nat [of m] last_show_nat [of n] by (intro digit_char_inj) simp_all
  show ?case
  proof (cases "m < 10 \<or> n < 10")
    case True
    then have "m < 10 \<and> n < 10"
      using less.prems length_show_nat [of m] length_show_nat [of n] by auto
    with mod show ?thesis by simp
  next
    case False
    then have "show_nat (m div 10) = show_nat (n div 10)"
      using less.prems by (simp add: show_nat_big)
    moreover have "m div 10 < m" using False by simp
    ultimately have "m div 10 = n div 10" using less.IH by blast
    with mod show ?thesis by (metis div_mult_mod_eq)
  qed
qed

lemma TrimSuffix_dot: "s \<noteq> [] \<Longrightarrow> last s \<noteq> CHR ''.'' \<Longrightarrow> TrimSuffix s ''.'' = s"
  by (auto simp: TrimSuffix_def HasSuffix_def last_conv_nth Cons_nth_drop_Suc [symmetric] Suc_le_eq)

end
