(* ===== verification/Go_Net.thy ===== *)
theory Go_Net
  imports Go_Prelude
begin

section \<open>Go's address and number parsing (strconv, net)\<close>

text \<open>
  What the repository uses of \<^verbatim>\<open>strconv\<close> and \<^verbatim>\<open>net\<close>: decimal parsing, splitting
  \<^verbatim>\<open>host:port\<close>, parsing textual IP addresses, testing an address against a subnet and for
  loopback. These are executable models of the standard library's functions, case by case.
\<close>

subsection \<open>strconv.Atoi\<close>

definition is_digit :: "char \<Rightarrow> bool" where
  "is_digit c \<longleftrightarrow> 48 \<le> (of_char c :: nat) \<and> (of_char c :: nat) \<le> 57"

definition digit_val :: "char \<Rightarrow> int" where
  "digit_val c = of_char c - 48"

definition dec_val :: "string \<Rightarrow> int" where
  "dec_val s = foldl (\<lambda>n c. 10 * n + digit_val c) 0 s"

text \<open>
  The value and whether there was an error. A sign is allowed; a syntax error gives 0 and a
  range error the nearest representable value.
\<close>

definition Atoi :: "string \<Rightarrow> int \<times> bool" where
  "Atoi s =
     (let neg = (case s of [] \<Rightarrow> False | c # _ \<Rightarrow> c = CHR ''-'');
          ds = (case s of [] \<Rightarrow> [] | c # r \<Rightarrow> if c = CHR ''-'' \<or> c = CHR ''+'' then r else s)
      in if ds = [] \<or> \<not> list_all is_digit ds then (0, True)
         else let v = (if neg then - dec_val ds else dec_val ds)
              in if v < - (2 ^ 63) then (- (2 ^ 63), True)
                 else if v > 2 ^ 63 - 1 then (2 ^ 63 - 1, True)
                 else (v, False))"

subsection \<open>net.SplitHostPort\<close>

datatype addr_error =
    MissingPort
  | TooManyColons
  | MissingBracket
  | UnexpectedOpen
  | UnexpectedClose

definition split_brackets :: "string \<Rightarrow> nat \<Rightarrow> addr_error + string \<times> nat \<times> nat" where
  "split_brackets hostport i =
     (case IndexChar (CHR '']'') hostport of
        None \<Rightarrow> Inl MissingBracket
      | Some e \<Rightarrow>
          if e + 1 = length hostport then Inl MissingPort
          else if e + 1 = i then Inr (take (e - 1) (drop 1 hostport), 1, e + 1)
          else if hostport ! (e + 1) = CHR '':'' then Inl TooManyColons
          else Inl MissingPort)"

definition split_plain :: "string \<Rightarrow> nat \<Rightarrow> addr_error + string \<times> nat \<times> nat" where
  "split_plain hostport i =
     (let host = take i hostport
      in if CHR '':'' \<in> set host then Inl TooManyColons else Inr (host, 0, 0))"

definition SplitHostPort :: "string \<Rightarrow> addr_error + string \<times> string" where
  "SplitHostPort hostport =
     (case LastIndexChar (CHR '':'') hostport of
        None \<Rightarrow> Inl MissingPort
      | Some i \<Rightarrow>
          (case (if hd hostport = CHR ''['' then split_brackets hostport i
                 else split_plain hostport i) of
             Inl e \<Rightarrow> Inl e
           | Inr (host, j, k) \<Rightarrow>
               if CHR ''['' \<in> set (drop j hostport) then Inl UnexpectedOpen
               else if CHR '']'' \<in> set (drop k hostport) then Inl UnexpectedClose
               else Inr (host, drop (i + 1) hostport)))"

text \<open>The texts of the two errors.\<close>

fun AddrError :: "addr_error \<Rightarrow> string \<Rightarrow> string" where
  "AddrError MissingPort a = ''address '' @ a @ '': missing port in address''"
| "AddrError TooManyColons a = ''address '' @ a @ '': too many colons in address''"
| "AddrError MissingBracket a = ''address '' @ a @ '': missing ']' in address''"
| "AddrError UnexpectedOpen a = ''address '' @ a @ '': unexpected '[' in address''"
| "AddrError UnexpectedClose a = ''address '' @ a @ '': unexpected ']' in address''"

definition NumError :: "string \<Rightarrow> string" where
  "NumError s =
     ''strconv.Atoi: parsing \"'' @ s @ ''\": '' @
     (if fst (Atoi s) = 0 then ''invalid syntax'' else ''value out of range'')"

subsection \<open>net.ParseIP\<close>

text \<open>
  An address is its 16-byte form, as \<^verbatim>\<open>net.IP\<close> stores it; an IPv4 address is stored with the
  prefix \<^verbatim>\<open>::ffff\<close>. \<open>None\<close> is the nil a parse error gives.
\<close>

definition v4_prefix :: bytes where
  "v4_prefix = replicate 10 0 @ [255, 255]"

definition parse_octet :: "string \<Rightarrow> byte option" where
  "parse_octet s =
     (if s = [] \<or> \<not> list_all is_digit s then None
      else if 1 < length s \<and> hd s = CHR ''0'' then None
      else if dec_val s > 255 then None
      else Some (of_int (dec_val s)))"

fun parse_octets :: "string list \<Rightarrow> bytes option" where
  "parse_octets [] = Some []"
| "parse_octets (s # ss) =
     (case parse_octet s of
        None \<Rightarrow> None
      | Some b \<Rightarrow> map_option ((#) b) (parse_octets ss))"

definition parse_ipv4 :: "string \<Rightarrow> bytes option" where
  "parse_ipv4 s =
     (let fields = Split (CHR ''.'') s
      in if length fields = 4 then parse_octets fields else None)"

definition hex_val :: "char \<Rightarrow> nat option" where
  "hex_val c =
     (let n = (of_char c :: nat)
      in if 48 \<le> n \<and> n \<le> 57 then Some (n - 48)
         else if 97 \<le> n \<and> n \<le> 102 then Some (n - 87)
         else if 65 \<le> n \<and> n \<le> 70 then Some (n - 55)
         else None)"

definition hex_prefix :: "string \<Rightarrow> string" where
  "hex_prefix s = takeWhile (\<lambda>c. hex_val c \<noteq> None) s"

definition hex_num :: "string \<Rightarrow> nat" where
  "hex_num s = foldl (\<lambda>n c. 16 * n + (case hex_val c of None \<Rightarrow> 0 | Some d \<Rightarrow> d)) 0 s"

text \<open>
  The loop over the groups of an IPv6 address: \<open>acc\<close> holds the bytes so far, \<open>ell\<close> the position
  of the ellipsis. The result is the bytes, the ellipsis and nothing left to read.
\<close>

function ipv6_groups :: "string \<Rightarrow> bytes \<Rightarrow> nat option \<Rightarrow> (bytes \<times> nat option) option" where
  "ipv6_groups s acc ell =
     (if length acc \<ge> 16 then (if s = [] then Some (acc, ell) else None)
      else
        let h = hex_prefix s; r = drop (length h) s; v = hex_num h
        in if h = [] \<or> length h > 4 then None
           else if r \<noteq> [] \<and> hd r = CHR ''.'' then
             (if ell = None \<and> length acc \<noteq> 12 then None
              else if length acc + 4 > 16 then None
              else map_option (\<lambda>q. (acc @ q, ell)) (parse_ipv4 s))
           else
             let acc' = acc @ [of_nat (v div 256), of_nat (v mod 256)]
             in if r = [] then Some (acc', ell)
                else if hd r \<noteq> CHR '':'' \<or> tl r = [] then None
                else if hd (tl r) \<noteq> CHR '':'' then ipv6_groups (tl r) acc' ell
                else if ell \<noteq> None then None
                else if tl (tl r) = [] then Some (acc', Some (length acc'))
                else ipv6_groups (tl (tl r)) acc' (Some (length acc')))"
  by pat_completeness auto
termination
  by (relation "measure (\<lambda>(s, acc, ell). 16 - length acc)") auto

declare ipv6_groups.simps [simp del]

definition expand_ellipsis :: "bytes \<times> nat option \<Rightarrow> bytes option" where
  "expand_ellipsis r =
     (case r of (acc, ell) \<Rightarrow>
        if length acc < 16 then
          (case ell of
             None \<Rightarrow> None
           | Some e \<Rightarrow> Some (take e acc @ replicate (16 - length acc) 0 @ drop e acc))
        else if ell \<noteq> None then None else Some acc)"

definition parse_ipv6 :: "string \<Rightarrow> bytes option" where
  "parse_ipv6 s =
     (if HasPrefix s ''::'' then
        (if drop 2 s = [] then Some (replicate 16 0)
         else Option.bind (ipv6_groups (drop 2 s) [] (Some 0)) expand_ellipsis)
      else Option.bind (ipv6_groups s [] None) expand_ellipsis)"

text \<open>The first of \<^verbatim>\<open>.\<close>, \<^verbatim>\<open>:\<close> and \<^verbatim>\<open>%\<close> decides; an address with a zone is refused.\<close>

definition ParseIP :: "string \<Rightarrow> bytes option" where
  "ParseIP s =
     (case dropWhile (\<lambda>c. c \<noteq> CHR ''.'' \<and> c \<noteq> CHR '':'' \<and> c \<noteq> CHR 0x25) s of
        [] \<Rightarrow> None
      | c # _ \<Rightarrow>
          if c = CHR ''.'' then map_option ((@) v4_prefix) (parse_ipv4 s)
          else if c = CHR '':'' then (if CHR 0x25 \<in> set s then None else parse_ipv6 s)
          else None)"

definition To4 :: "bytes \<Rightarrow> bytes option" where
  "To4 ip =
     (if length ip = 4 then Some ip
      else if length ip = 16 \<and> take 12 ip = v4_prefix then Some (drop 12 ip)
      else None)"

definition IsLoopback :: "bytes \<Rightarrow> bool" where
  "IsLoopback ip =
     (case To4 ip of
        Some ip4 \<Rightarrow> hd ip4 = 127
      | None \<Rightarrow> ip = replicate 15 0 @ [1])"

subsection \<open>Subnets\<close>

text \<open>
  \<^verbatim>\<open>IPNet.Contains\<close> for an IPv4 subnet: the masked bytes agree. \<open>net\<close> and \<open>msk\<close> are the four
  bytes \<^verbatim>\<open>net.ParseCIDR\<close> gives for the network and the mask.
\<close>

definition subnet_Contains :: "bytes \<Rightarrow> bytes \<Rightarrow> bytes \<Rightarrow> bool" where
  "subnet_Contains net msk ip =
     (case To4 ip of
        None \<Rightarrow> False
      | Some ip4 \<Rightarrow>
          list_all (\<lambda>(n, m, b). and n m = and b m) (zip net (zip msk ip4)))"

subsection \<open>Lemmas\<close>

lemma SplitHostPort_no_colon: "CHR '':'' \<notin> set s \<Longrightarrow> SplitHostPort s = Inl MissingPort"
  by (simp add: SplitHostPort_def LastIndexChar_None [THEN iffD2])

lemma SplitHostPort_host_port:
  assumes "CHR '':'' \<notin> set h" "CHR '':'' \<notin> set p" "CHR ''['' \<notin> set h" "CHR ''['' \<notin> set p"
    "CHR '']'' \<notin> set h" "CHR '']'' \<notin> set p"
  shows "SplitHostPort (h @ '':'' @ p) = Inr (h, p)"
proof -
  have "LastIndexChar (CHR '':'') (h @ CHR '':'' # p) = Some (length h)"
    using assms(2) by (rule LastIndexChar_append)
  moreover have "hd (h @ CHR '':'' # p) \<noteq> CHR ''[''"
    using assms(3) by (cases h) auto
  ultimately show ?thesis
    using assms by (simp add: SplitHostPort_def split_plain_def)
qed

lemma SplitHostPort_two_colons:
  assumes "CHR '':'' \<in> set h" and "CHR '':'' \<notin> set p" and "CHR ''['' \<notin> set h"
  shows "SplitHostPort (h @ '':'' @ p) = Inl TooManyColons"
proof -
  have "LastIndexChar (CHR '':'') (h @ CHR '':'' # p) = Some (length h)"
    using assms(2) by (rule LastIndexChar_append)
  moreover have "hd (h @ CHR '':'' # p) \<noteq> CHR ''[''"
    using assms(1,3) by (cases h) auto
  ultimately show ?thesis
    using assms by (simp add: SplitHostPort_def split_plain_def)
qed

lemma parse_octets_length: "parse_octets ss = Some bs \<Longrightarrow> length bs = length ss"
  by (induction ss arbitrary: bs) (auto split: option.splits)

lemma Atoi_range: "int64_range (fst (Atoi s))"
  by (simp add: Atoi_def Let_def)

subsection \<open>Reading back a printed number\<close>

lemma digit_char_facts:
  assumes "d < 10"
  shows "is_digit (digit_char d)" "digit_val (digit_char d) = int d"
proof -
  have n: "of_char (digit_char d) = (48 + d :: nat)" using assms by (rule of_char_digit)
  then show "is_digit (digit_char d)" using assms by (simp add: is_digit_def)
  have "(of_char (digit_char d) :: int) = int (of_char (digit_char d))" by (simp add: of_char_def)
  with n show "digit_val (digit_char d) = int d" by (simp add: digit_val_def)
qed

lemma dec_val_snoc [simp]: "dec_val (s @ [c]) = 10 * dec_val s + digit_val c"
  by (simp add: dec_val_def)

lemma dec_val_show_nat [simp]: "dec_val (show_nat n) = int n"
proof (induction n rule: less_induct)
  case (less n)
  show ?case
  proof (cases "n < 10")
    case True
    then show ?thesis by (simp add: show_nat_small dec_val_def digit_char_facts)
  next
    case False
    moreover have "10 * int (n div 10) + int (n mod 10) = int n"
      using mult_div_mod_eq [of 10 n] by linarith
    ultimately show ?thesis using less.IH [of "n div 10"] by (simp add: show_nat_big digit_char_facts)
  qed
qed

lemma show_nat_digits: "c \<in> set (show_nat n) \<Longrightarrow> is_digit c"
proof (induction n rule: less_induct)
  case (less n)
  show ?case
  proof (cases "n < 10")
    case True
    with less.prems show ?thesis by (simp add: show_nat_small digit_char_facts)
  next
    case False
    with less.IH [of "n div 10"] less.prems show ?thesis by (auto simp: show_nat_big digit_char_facts)
  qed
qed

lemma hd_show_nat: "0 < n \<Longrightarrow> hd (show_nat n) \<noteq> CHR ''0''"
proof (induction n rule: less_induct)
  case (less n)
  show ?case
  proof (cases "n < 10")
    case True
    have "(of_char (digit_char n) :: nat) \<noteq> of_char (CHR ''0'')"
      using of_char_digit [OF True] less.prems by simp
    then show ?thesis using True by (auto simp: show_nat_small)
  next
    case False
    then show ?thesis using less.IH [of "n div 10"] by (simp add: show_nat_big)
  qed
qed

lemma parse_octet_show: "parse_octet (show_nat (unat b)) = Some b"
proof -
  have "list_all is_digit (show_nat (unat b))" by (simp add: list_all_iff show_nat_digits)
  moreover have "length (show_nat (unat b)) = 1" if "unat b = 0" using that by (simp add: show_nat_small)
  then have "\<not> (1 < length (show_nat (unat b)) \<and> hd (show_nat (unat b)) = CHR ''0'')"
    using hd_show_nat [of "unat b"] by (cases "unat b = 0") auto
  moreover have "uint b \<le> 255" using uint_lt2p [of b] by simp
  ultimately show ?thesis by (simp add: parse_octet_def)
qed

end
