(* ===== verification/Go_IO.thy ===== *)
theory Go_IO
  imports Go_Prelude
begin

section \<open>Go's readers, errors and files (io, os, fmt)\<close>

text \<open>
  Errors, byte streams and the file system as the components use them.
  \<^item> A stream is the list of events its reads will meet: a segment of bytes that is available at
    once, or a failing read; the end of the list is the end of the stream.
  \<^item> A file system is a map from path names to contents; which operations fail, how much one
    read or write call transfers, is an argument (\<open>faults\<close>). Path names are compared as strings.
\<close>

subsection \<open>Errors\<close>

text \<open>
  \<open>NetError timeout msg\<close> is a \<^verbatim>\<open>net.Error\<close>; \<open>Errorf msg\<close> is what \<^verbatim>\<open>fmt.Errorf\<close> returns for a
  format without \<^verbatim>\<open>%w\<close>: a new value that is neither \<^verbatim>\<open>io.EOF\<close> nor a \<^verbatim>\<open>net.Error\<close>.
\<close>

datatype go_error = EOF | UnexpectedEOF | NetError bool string | Errorf string

fun Error :: "go_error \<Rightarrow> string" where
  "Error EOF = ''EOF''"
| "Error UnexpectedEOF = ''unexpected EOF''"
| "Error (NetError _ msg) = msg"
| "Error (Errorf msg) = msg"

fun is_timeout :: "go_error \<Rightarrow> bool" where
  "is_timeout (NetError tmo _) = tmo"
| "is_timeout _ = False"

subsection \<open>Streams\<close>

datatype conn_event = Data bytes | Fail go_error

type_synonym conn = "conn_event list"

text \<open>\<^verbatim>\<open>io.ReadFull\<close> for \<open>n\<close> bytes. Bytes read before a failure are gone.\<close>

fun ReadFull :: "nat \<Rightarrow> conn \<Rightarrow> (go_error + bytes) \<times> conn" where
  "ReadFull 0 c = (Inr [], c)"
| "ReadFull (Suc n) [] = (Inl EOF, [])"
| "ReadFull (Suc n) (Fail e # c) = (Inl e, c)"
| "ReadFull (Suc n) (Data bs # c) =
     (if Suc n < length bs then (Inr (take (Suc n) bs), Data (drop (Suc n) bs) # c)
      else
        (case ReadFull (Suc n - length bs) c of
           (Inr r, c') \<Rightarrow> (Inr (bs @ r), c')
         | (Inl e, c') \<Rightarrow> (Inl (if bs \<noteq> [] \<and> e = EOF then UnexpectedEOF else e), c')))"

fun segments :: "conn \<Rightarrow> bytes option" where
  "segments [] = Some []"
| "segments (Fail e # c) = None"
| "segments (Data bs # c) = map_option ((@) bs) (segments c)"

subsection \<open>Lemmas on streams\<close>

lemma ReadFull_segments:
  "segments c = Some (x @ rest) \<Longrightarrow>
     \<exists>c'. ReadFull (length x) c = (Inr x, c') \<and> segments c' = Some rest"
proof (induction "length x" c arbitrary: x rule: ReadFull.induct)
  case (4 n bs c)
  from "4.prems" obtain tail where tail: "segments c = Some tail" "bs @ tail = x @ rest"
    by auto
  have x: "length x = Suc n" using "4.hyps" by simp
  show ?case
  proof (cases "Suc n < length bs")
    case True
    then have "take (Suc n) bs = x" and "drop (Suc n) bs @ tail = rest"
      using tail(2) x
      by (metis append_eq_append_conv_if less_imp_le, metis append_eq_append_conv_if less_imp_le)
    with True tail(1) x show ?thesis by simp
  next
    case False
    then obtain x2 where x2: "x = bs @ x2" "tail = x2 @ rest"
      using tail(2) x by (auto simp: append_eq_append_conv2)
    have n: "Suc n - length bs = length x2" using x x2(1) by (metis add_diff_cancel_left' length_append)
    obtain c' where "ReadFull (length x2) c = (Inr x2, c')" and "segments c' = Some rest"
      using "4.hyps"(1) [OF False n] tail(1) x2(2) by auto
    with False x x2 n show ?thesis by simp
  qed
qed auto

lemma ReadFull_length: "ReadFull n c = (Inr x, c') \<Longrightarrow> length x = n"
proof (induction n c arbitrary: x c' rule: ReadFull.induct)
  case (4 n bs c)
  obtain r2 c2 where r: "ReadFull (Suc n - length bs) c = (r2, c2)" by fastforce
  show ?case
  proof (cases "Suc n < length bs")
    case True
    with "4.prems" show ?thesis by auto
  next
    case False
    with "4.prems" r obtain y where "r2 = Inr y" and "x = bs @ y" by (cases r2) auto
    with "4.IH" [OF False] r False show ?thesis by simp
  qed
qed auto

lemma ReadFull_eof: "segments c = Some [] \<Longrightarrow> n \<noteq> 0 \<Longrightarrow> \<exists>c'. ReadFull n c = (Inl EOF, c')"
proof (induction n c rule: ReadFull.induct)
  case (4 n bs c)
  then have "bs = []" and "segments c = Some []" by auto
  with "4.IH" obtain c' where "ReadFull (Suc n) c = (Inl EOF, c')" by auto
  with \<open>bs = []\<close> show ?case by simp
qed auto

text \<open>The bytes and events still to come; every successful decoding makes progress on them.\<close>

definition conn_size :: "conn \<Rightarrow> nat" where
  "conn_size c = sum_list (map (\<lambda>ev. case ev of Data bs \<Rightarrow> Suc (length bs) | Fail _ \<Rightarrow> 1) c)"

lemma conn_size_simps [simp]:
  "conn_size [] = 0"
  "conn_size (Data bs # c) = Suc (length bs) + conn_size c"
  "conn_size (Fail e # c) = Suc (conn_size c)"
  by (simp_all add: conn_size_def)

lemma ReadFull_size: "ReadFull n c = (Inr x, c') \<Longrightarrow> conn_size c' + n \<le> conn_size c"
proof (induction n c arbitrary: x c' rule: ReadFull.induct)
  case (4 n bs c)
  obtain r2 c2 where r: "ReadFull (Suc n - length bs) c = (r2, c2)" by fastforce
  show ?case
  proof (cases "Suc n < length bs")
    case True
    with "4.prems" show ?thesis by auto
  next
    case False
    with "4.prems" r obtain y where "r2 = Inr y" and "c' = c2" by (cases r2) auto
    with "4.IH" [OF False, of y c2] r False show ?thesis by simp
  qed
qed auto

subsection \<open>Writers\<close>

text \<open>
  What \<^verbatim>\<open>Write\<close> call number \<open>k\<close> does with its bytes: the count and the error. A reliable writer
  takes everything.
\<close>

type_synonym io_writer = "nat \<Rightarrow> bytes \<Rightarrow> nat \<times> go_error option"

definition reliable :: "io_writer \<Rightarrow> bool" where
  "reliable wr \<longleftrightarrow> (\<forall>k d. wr k d = (length d, None))"

text \<open>The contract of \<^verbatim>\<open>io.Writer\<close>: a short count comes with an error.\<close>

definition honest :: "io_writer \<Rightarrow> bool" where
  "honest wr \<longleftrightarrow> (\<forall>k d. snd (wr k d) = None \<longrightarrow> fst (wr k d) = length d)"

subsection \<open>Files\<close>

type_synonym filesystem = "string \<rightharpoonup> bytes"

text \<open>One \<^verbatim>\<open>Read\<close> call transfers at most the given number of bytes (at least one), or fails.\<close>

datatype read_step = ReadSome nat | ReadFail go_error

record faults =
  open_fault :: "string \<Rightarrow> go_error option"
  stat_fault :: "string \<Rightarrow> go_error option"
  mkdir_fault :: "string \<Rightarrow> go_error option"
  create_fault :: "string \<Rightarrow> go_error option"
  read_plan :: "string \<Rightarrow> nat \<Rightarrow> read_step"
  readat_fault :: "string \<Rightarrow> go_error option"
  copy_fault :: "string \<Rightarrow> go_error option"
  write_fault :: "string \<Rightarrow> (nat \<times> go_error) option"

definition no_faults :: faults where
  "no_faults =
     \<lparr>open_fault = (\<lambda>_. None), stat_fault = (\<lambda>_. None), mkdir_fault = (\<lambda>_. None),
      create_fault = (\<lambda>_. None), read_plan = (\<lambda>_ _. ReadSome (2 ^ 30)),
      readat_fault = (\<lambda>_. None), copy_fault = (\<lambda>_. None), write_fault = (\<lambda>_. None)\<rparr>"

definition os_Open :: "faults \<Rightarrow> filesystem \<Rightarrow> string \<Rightarrow> go_error + bytes" where
  "os_Open fl fs path =
     (case open_fault fl path of
        Some e \<Rightarrow> Inl e
      | None \<Rightarrow>
          (case fs path of
             None \<Rightarrow> Inl (Errorf (''open '' @ path @ '': no such file or directory''))
           | Some content \<Rightarrow> Inr content))"

text \<open>\<^verbatim>\<open>File.Read\<close> into a buffer of \<open>n\<close> bytes, with \<open>rest\<close> still to be read.\<close>

definition file_Read :: "read_step \<Rightarrow> nat \<Rightarrow> bytes \<Rightarrow> bytes \<times> go_error option" where
  "file_Read step n rest =
     (case step of
        ReadFail e \<Rightarrow> ([], Some e)
      | ReadSome cap \<Rightarrow>
          if rest = [] then ([], Some EOF) else (take (min n (max 1 cap)) rest, None))"

text \<open>\<^verbatim>\<open>File.ReadAt\<close> of \<open>n\<close> bytes at \<open>off\<close>: reads until the buffer is full or the file ends.\<close>

definition file_ReadAt :: "go_error option \<Rightarrow> bytes \<Rightarrow> nat \<Rightarrow> int \<Rightarrow> bytes \<times> go_error option" where
  "file_ReadAt fault content n off =
     (if off < 0 then ([], Some (Errorf ''negative offset''))
      else case fault of
        Some e \<Rightarrow> ([], Some e)
      | None \<Rightarrow>
          let got = take n (drop (nat off) content)
          in (got, if length got < n then Some EOF else None))"

text \<open>\<^verbatim>\<open>os.Create\<close> and one \<^verbatim>\<open>Write\<close>: the new file system, the count and the error.\<close>

definition create_and_write ::
  "faults \<Rightarrow> string \<Rightarrow> bytes \<Rightarrow> filesystem \<Rightarrow> filesystem \<times> nat \<times> go_error option" where
  "create_and_write fl path data fs =
     (case create_fault fl path of
        Some e \<Rightarrow> (fs, 0, Some e)
      | None \<Rightarrow>
          (case write_fault fl path of
             Some (n, e) \<Rightarrow> (fs(path \<mapsto> take n data), min n (length data), Some e)
           | None \<Rightarrow> (fs(path \<mapsto> data), length data, None)))"

subsection \<open>filepath\<close>

text \<open>\<^verbatim>\<open>filepath.Ext\<close>: from the last dot of the last path element.\<close>

definition Ext :: "string \<Rightarrow> string" where
  "Ext path =
     (let r = takeWhile (\<lambda>c. c \<noteq> CHR ''/'') (rev path)
      in if CHR ''.'' \<in> set r then CHR ''.'' # rev (takeWhile (\<lambda>c. c \<noteq> CHR ''.'') r) else [])"

definition Base :: "string \<Rightarrow> string" where
  "Base path =
     (if path = [] then ''.''
      else
        let r = dropWhile (\<lambda>c. c = CHR ''/'') (rev path)
        in if r = [] then ''/'' else rev (takeWhile (\<lambda>c. c \<noteq> CHR ''/'') r))"

lemma file_Read_full:
  "n \<le> cap \<Longrightarrow> rest \<noteq> [] \<Longrightarrow> 0 < n \<Longrightarrow> file_Read (ReadSome cap) n rest = (take n rest, None)"
  by (simp add: file_Read_def min_def)

lemma file_ReadAt_inside:
  "0 \<le> off \<Longrightarrow> nat off + n \<le> length content \<Longrightarrow>
     file_ReadAt None content n off = (take n (drop (nat off) content), None)"
  by (simp add: file_ReadAt_def Let_def)

end
