(* ===== verification/Go_Aes.thy ===== *)
theory Go_Aes
  imports Go_Prelude
begin

section \<open>Go's block cipher and stream: crypto/aes, crypto/cipher\<close>

text \<open>
  AES with its three key sizes and the counter mode stream of \<^verbatim>\<open>cipher.NewCTR\<close>: byte \<open>k\<close> of the
  key stream is byte \<open>k mod 16\<close> of the encryption of the initial vector plus \<open>k div 16\<close>, as a
  big-endian 128-bit counter.
\<close>

subsection \<open>AES\<close>

definition aes_sbox :: "byte list" where
  "aes_sbox =
     [0x63, 0x7c, 0x77, 0x7b, 0xf2, 0x6b, 0x6f, 0xc5, 0x30, 0x01, 0x67, 0x2b, 0xfe, 0xd7, 0xab, 0x76,
      0xca, 0x82, 0xc9, 0x7d, 0xfa, 0x59, 0x47, 0xf0, 0xad, 0xd4, 0xa2, 0xaf, 0x9c, 0xa4, 0x72, 0xc0,
      0xb7, 0xfd, 0x93, 0x26, 0x36, 0x3f, 0xf7, 0xcc, 0x34, 0xa5, 0xe5, 0xf1, 0x71, 0xd8, 0x31, 0x15,
      0x04, 0xc7, 0x23, 0xc3, 0x18, 0x96, 0x05, 0x9a, 0x07, 0x12, 0x80, 0xe2, 0xeb, 0x27, 0xb2, 0x75,
      0x09, 0x83, 0x2c, 0x1a, 0x1b, 0x6e, 0x5a, 0xa0, 0x52, 0x3b, 0xd6, 0xb3, 0x29, 0xe3, 0x2f, 0x84,
      0x53, 0xd1, 0x00, 0xed, 0x20, 0xfc, 0xb1, 0x5b, 0x6a, 0xcb, 0xbe, 0x39, 0x4a, 0x4c, 0x58, 0xcf,
      0xd0, 0xef, 0xaa, 0xfb, 0x43, 0x4d, 0x33, 0x85, 0x45, 0xf9, 0x02, 0x7f, 0x50, 0x3c, 0x9f, 0xa8,
      0x51, 0xa3, 0x40, 0x8f, 0x92, 0x9d, 0x38, 0xf5, 0xbc, 0xb6, 0xda, 0x21, 0x10, 0xff, 0xf3, 0xd2,
      0xcd, 0x0c, 0x13, 0xec, 0x5f, 0x97, 0x44, 0x17, 0xc4, 0xa7, 0x7e, 0x3d, 0x64, 0x5d, 0x19, 0x73,
      0x60, 0x81, 0x4f, 0xdc, 0x22, 0x2a, 0x90, 0x88, 0x46, 0xee, 0xb8, 0x14, 0xde, 0x5e, 0x0b, 0xdb,
      0xe0, 0x32, 0x3a, 0x0a, 0x49, 0x06, 0x24, 0x5c, 0xc2, 0xd3, 0xac, 0x62, 0x91, 0x95, 0xe4, 0x79,
      0xe7, 0xc8, 0x37, 0x6d, 0x8d, 0xd5, 0x4e, 0xa9, 0x6c, 0x56, 0xf4, 0xea, 0x65, 0x7a, 0xae, 0x08,
      0xba, 0x78, 0x25, 0x2e, 0x1c, 0xa6, 0xb4, 0xc6, 0xe8, 0xdd, 0x74, 0x1f, 0x4b, 0xbd, 0x8b, 0x8a,
      0x70, 0x3e, 0xb5, 0x66, 0x48, 0x03, 0xf6, 0x0e, 0x61, 0x35, 0x57, 0xb9, 0x86, 0xc1, 0x1d, 0x9e,
      0xe1, 0xf8, 0x98, 0x11, 0x69, 0xd9, 0x8e, 0x94, 0x9b, 0x1e, 0x87, 0xe9, 0xce, 0x55, 0x28, 0xdf,
      0x8c, 0xa1, 0x89, 0x0d, 0xbf, 0xe6, 0x42, 0x68, 0x41, 0x99, 0x2d, 0x0f, 0xb0, 0x54, 0xbb, 0x16]"

definition SubByte :: "byte \<Rightarrow> byte" where
  "SubByte b = aes_sbox ! unat b"

definition xtime :: "byte \<Rightarrow> byte" where
  "xtime b = xor (push_bit 1 b) (if bit b 7 then 0x1b else 0)"

definition xor_bytes :: "bytes \<Rightarrow> bytes \<Rightarrow> bytes" where
  "xor_bytes a b = map2 xor a b"

definition Rcon :: "nat \<Rightarrow> bytes" where
  "Rcon i = [(xtime ^^ (i - 1)) 1, 0, 0, 0]"

text \<open>The key schedule, one four-byte word at a time.\<close>

definition next_word :: "nat \<Rightarrow> bytes list \<Rightarrow> bytes" where
  "next_word nk ws =
     (let i = length ws; temp = last ws;
          t = (if i mod nk = 0 then xor_bytes (map SubByte (rotate1 temp)) (Rcon (i div nk))
               else if nk > 6 \<and> i mod nk = 4 then map SubByte temp
               else temp)
      in xor_bytes (ws ! (i - nk)) t)"

definition expandKey :: "bytes \<Rightarrow> bytes list" where
  "expandKey key =
     (let nk = length key div 4
      in ((\<lambda>ws. ws @ [next_word nk ws]) ^^ (4 * (nk + 7) - nk)) (map (block 4 key) [0..<nk]))"

definition ShiftRows :: "bytes \<Rightarrow> bytes" where
  "ShiftRows s = map (\<lambda>i. s ! (i mod 4 + 4 * ((i div 4 + i mod 4) mod 4))) [0..<16]"

definition MixColumn :: "bytes \<Rightarrow> bytes" where
  "MixColumn c =
     map (\<lambda>i. xor (xor (xtime (c ! i)) (xor (xtime (c ! ((i + 1) mod 4))) (c ! ((i + 1) mod 4))))
              (xor (c ! ((i + 2) mod 4)) (c ! ((i + 3) mod 4)))) [0..<4]"

definition MixColumns :: "bytes \<Rightarrow> bytes" where
  "MixColumns s = concat (map (\<lambda>j. MixColumn (block 4 s j)) [0..<4])"

definition round_key :: "bytes list \<Rightarrow> nat \<Rightarrow> bytes" where
  "round_key ws r = concat (map (\<lambda>j. ws ! (4 * r + j)) [0..<4])"

definition aes_rounds :: "bytes list \<Rightarrow> nat \<Rightarrow> bytes \<Rightarrow> bytes" where
  "aes_rounds ws nr s =
     (let s0 = xor_bytes s (round_key ws 0);
          s1 = fold (\<lambda>r s. xor_bytes (MixColumns (ShiftRows (map SubByte s))) (round_key ws r)) [1..<nr] s0
      in xor_bytes (ShiftRows (map SubByte s1)) (round_key ws nr))"

definition aes_Encrypt :: "bytes \<Rightarrow> bytes \<Rightarrow> bytes" where
  "aes_Encrypt key blk = aes_rounds (expandKey key) (length key div 4 + 6) blk"

definition aes_BlockSize :: nat where
  "aes_BlockSize = 16"

definition aes_key_ok :: "bytes \<Rightarrow> bool" where
  "aes_key_ok key = (length key = 16 \<or> length key = 24 \<or> length key = 32)"

subsection \<open>Counter mode\<close>

definition ctr_add :: "bytes \<Rightarrow> nat \<Rightarrow> bytes" where
  "ctr_add iv j =
     (let v = foldl (\<lambda>w b. push_bit 8 w + ucast b) 0 iv + of_nat j :: 128 word
      in map (\<lambda>i. ucast (drop_bit (8 * (15 - i)) v)) [0..<16])"

definition key_stream :: "bytes \<Rightarrow> bytes \<Rightarrow> nat \<Rightarrow> byte" where
  "key_stream key iv k = aes_Encrypt key (ctr_add iv (k div 16)) ! (k mod 16)"

text \<open>\<^verbatim>\<open>XORKeyStream\<close> with \<open>off\<close> bytes of the stream used so far.\<close>

definition XORKeyStream :: "bytes \<Rightarrow> bytes \<Rightarrow> nat \<Rightarrow> bytes \<Rightarrow> bytes" where
  "XORKeyStream key iv off bs = map (\<lambda>i. xor (bs ! i) (key_stream key iv (off + i))) [0..<length bs]"

lemma length_XORKeyStream [simp]: "length (XORKeyStream key iv off bs) = length bs"
  by (simp add: XORKeyStream_def)

lemma XORKeyStream_Nil [simp]: "XORKeyStream key iv off [] = []"
  by (simp add: XORKeyStream_def)

lemma XORKeyStream_append:
  "XORKeyStream key iv off (a @ b) = XORKeyStream key iv off a @ XORKeyStream key iv (off + length a) b"
  by (rule nth_equalityI) (auto simp: XORKeyStream_def nth_append)

lemma XORKeyStream_involution [simp]:
  "XORKeyStream key iv off (XORKeyStream key iv off bs) = bs"
  by (rule nth_equalityI) (auto simp: XORKeyStream_def xor.assoc)

end
