(* ===== verification/Tracker.thy ===== *)
theory Tracker
  imports Go_Prelude
begin

section \<open>The tracker (p2p/tracker.go)\<close>

text \<open>
  The tracker's state is three maps: \<^verbatim>\<open>fileIndex\<close> (file metadata), \<^verbatim>\<open>peerIndex\<close> (which peers
  share a file; a \<^verbatim>\<open>map[string]bool\<close> whose values are all true, so a set) and
  \<^verbatim>\<open>peerLastSeen\<close> (the last heartbeat, in nanoseconds). Every HTTP handler runs under the
  tracker's lock, so a handler is one atomic step, except that two answers are written after the
  lock is released: \<^verbatim>\<open>HandleGetPeers\<close> copies the peer set it found and \<^verbatim>\<open>HandleGetMetadata\<close> encodes
  the record it found, and a handler running at that moment may change either. The model takes the
  set and the record as they were found. A handler takes the request as the
  language's HTTP library gives it (method, query values, and the decoded JSON body or
  \<open>None\<close> where decoding fails) and the values \<^verbatim>\<open>time.Now()\<close> returns; iteration orders are
  arguments (see the prelude). The file information is stored by value: each
  \<^verbatim>\<open>*FileInfo\<close> the code allocates is held under one key only.
\<close>

subsection \<open>State and messages\<close>

record FileInfo =
  fi_FileID :: string
  fi_Name :: string
  fi_Size :: int
  fi_UploadedAt :: int
  fi_Description :: string
  fi_Categories :: "string list"
  fi_NumPeers :: int
  fi_Extension :: string
  fi_NumChunks :: int
  fi_ChunkSize :: int
  fi_ChunkHashes :: "string list"
  fi_TotalHash :: string
  fi_TotalSize :: int

record Tracker =
  fileIndex :: "string \<rightharpoonup> FileInfo"
  peerIndex :: "string \<rightharpoonup> string set"
  peerLastSeen :: "string \<rightharpoonup> int"

record announcement =
  an_FileID :: string
  an_PeerAddr :: string
  an_Name :: string
  an_Size :: int
  an_Description :: string
  an_Categories :: "string list"
  an_Extension :: string
  an_NumChunks :: int
  an_ChunkSize :: int
  an_ChunkHashes :: "string list"
  an_TotalHash :: string
  an_TotalSize :: int

record heartbeat =
  hb_PeerAddr :: string
  hb_FileIDs :: "string list"

record removal =
  rm_FileID :: string
  rm_PeerAddr :: string

datatype response =
    HttpError nat string
  | WriteHeader nat
  | JsonFileInfo FileInfo
  | JsonPeers "string list"
  | JsonFiles "FileInfo list" int int

record CleanupConfig =
  InactivityThreshold :: int
  CleanupInterval :: int

definition Second :: int where
  "Second = 1000000000"

definition NewTracker :: Tracker where
  "NewTracker = \<lparr>fileIndex = Map.empty, peerIndex = Map.empty, peerLastSeen = Map.empty\<rparr>"

text \<open>\<^verbatim>\<open>time.Time.Sub\<close> saturates at the extreme durations.\<close>

definition time_Sub :: "int \<Rightarrow> int \<Rightarrow> int" where
  "time_Sub t u = max (- (2 ^ 63)) (min (2 ^ 63 - 1) (t - u))"

subsection \<open>Announcing, heartbeats and removal\<close>

definition announced_info :: "announcement \<Rightarrow> int \<Rightarrow> FileInfo" where
  "announced_info a now =
     \<lparr>fi_FileID = an_FileID a, fi_Name = an_Name a, fi_Size = an_Size a, fi_UploadedAt = now,
      fi_Description = an_Description a, fi_Categories = an_Categories a, fi_NumPeers = 0,
      fi_Extension = an_Extension a, fi_NumChunks = an_NumChunks a,
      fi_ChunkSize = an_ChunkSize a, fi_ChunkHashes = an_ChunkHashes a,
      fi_TotalHash = an_TotalHash a, fi_TotalSize = an_TotalSize a\<rparr>"

definition add_peer :: "string \<Rightarrow> string \<Rightarrow> (string \<rightharpoonup> string set) \<Rightarrow> (string \<rightharpoonup> string set)" where
  "add_peer f p idx = idx(f \<mapsto> insert p (case idx f of None \<Rightarrow> {} | Some ps \<Rightarrow> ps))"

definition set_NumPeers :: "string \<Rightarrow> nat \<Rightarrow> (string \<rightharpoonup> FileInfo) \<Rightarrow> (string \<rightharpoonup> FileInfo)" where
  "set_NumPeers f n files =
     (case files f of
        None \<Rightarrow> files
      | Some info \<Rightarrow> files(f \<mapsto> info\<lparr>fi_NumPeers := int n\<rparr>))"

definition HandleAnnounce ::
  "string \<Rightarrow> announcement option \<Rightarrow> int \<Rightarrow> int \<Rightarrow> Tracker \<Rightarrow> Tracker \<times> response" where
  "HandleAnnounce meth body now1 now2 t =
     (if meth \<noteq> ''POST'' then (t, HttpError 405 ''Method not allowed'')
      else case body of
        None \<Rightarrow> (t, HttpError 400 ''Invalid request body'')
      | Some a \<Rightarrow>
          let f = an_FileID a; p = an_PeerAddr a;
              files = (case fileIndex t f of
                  None \<Rightarrow> (fileIndex t)(f \<mapsto> announced_info a now1)
                | Some old \<Rightarrow>
                    if fi_TotalHash old \<noteq> an_TotalHash a
                    then (fileIndex t)(f \<mapsto> announced_info a now1) else fileIndex t);
              idx = add_peer f p (peerIndex t);
              n = card (case idx f of None \<Rightarrow> {} | Some ps \<Rightarrow> ps)
          in (t\<lparr>fileIndex := set_NumPeers f n files, peerIndex := idx,
                peerLastSeen := (peerLastSeen t)(p \<mapsto> now2)\<rparr>, WriteHeader 200))"

fun contains :: "string list \<Rightarrow> string \<Rightarrow> bool" where
  "contains [] str = False"
| "contains (s # strs) str = (if s = str then True else contains strs str)"

text \<open>
  The loop body that takes peer \<open>p\<close> off the list of file \<open>f\<close> and drops the file when nobody is
  left. The code has it four times: in \<^verbatim>\<open>HandleHeartbeat\<close>, \<^verbatim>\<open>cleanupInactivePeers\<close>,
  \<^verbatim>\<open>cleanupStalePeers\<close> and \<^verbatim>\<open>RemovePeer\<close>.
\<close>

definition drop_listing :: "string \<Rightarrow> string set \<Rightarrow> string \<Rightarrow> Tracker \<Rightarrow> Tracker" where
  "drop_listing p peers f t =
     (let peers' = peers - {p}; idx = (peerIndex t)(f \<mapsto> peers')
      in case fileIndex t f of
           None \<Rightarrow> t\<lparr>peerIndex := idx\<rparr>
         | Some info \<Rightarrow>
             if card peers' = 0
             then t\<lparr>fileIndex := (fileIndex t)(f := None), peerIndex := idx(f := None)\<rparr>
             else t\<lparr>fileIndex := (fileIndex t)(f \<mapsto> info\<lparr>fi_NumPeers := int (card peers')\<rparr>),
                    peerIndex := idx\<rparr>)"

definition drop_peer_from_file :: "string \<Rightarrow> string \<Rightarrow> Tracker \<Rightarrow> Tracker" where
  "drop_peer_from_file p f t =
     (case peerIndex t f of
        None \<Rightarrow> t
      | Some peers \<Rightarrow> if p \<in> peers then drop_listing p peers f t else t)"

definition drop_peer_loop :: "string list \<Rightarrow> string \<Rightarrow> Tracker \<Rightarrow> Tracker" where
  "drop_peer_loop ord p t = fold (drop_peer_from_file p) (range_keys ord (peerIndex t)) t"

definition heartbeat_share :: "string \<Rightarrow> string \<Rightarrow> Tracker \<Rightarrow> Tracker" where
  "heartbeat_share p f t =
     (let idx = add_peer f p (peerIndex t);
          n = card (case idx f of None \<Rightarrow> {} | Some ps \<Rightarrow> ps)
      in t\<lparr>peerIndex := idx, fileIndex := set_NumPeers f n (fileIndex t)\<rparr>)"

definition heartbeat_unshare :: "heartbeat \<Rightarrow> string \<Rightarrow> Tracker \<Rightarrow> Tracker" where
  "heartbeat_unshare h f t =
     (if f \<in> set (hb_FileIDs h) then t else drop_peer_from_file (hb_PeerAddr h) f t)"

definition HandleHeartbeat ::
  "string \<Rightarrow> heartbeat option \<Rightarrow> int \<Rightarrow> string list \<Rightarrow> Tracker \<Rightarrow> Tracker \<times> response" where
  "HandleHeartbeat meth body now ord t =
     (if meth \<noteq> ''POST'' then (t, HttpError 405 ''Method not allowed'')
      else case body of
        None \<Rightarrow> (t, HttpError 400 ''Invalid request body'')
      | Some h \<Rightarrow>
          let t1 = t\<lparr>peerLastSeen := (peerLastSeen t)(hb_PeerAddr h \<mapsto> now)\<rparr>;
              t2 = fold (heartbeat_share (hb_PeerAddr h)) (hb_FileIDs h) t1;
              t3 = fold (heartbeat_unshare h) (range_keys ord (peerIndex t2)) t2
          in (t3, WriteHeader 200))"

definition HandleRemove :: "string \<Rightarrow> removal option \<Rightarrow> Tracker \<Rightarrow> Tracker \<times> response" where
  "HandleRemove meth body t =
     (if meth \<noteq> ''POST'' then (t, HttpError 405 ''Method not allowed'')
      else case body of
        None \<Rightarrow> (t, HttpError 400 ''Invalid request body'')
      | Some r \<Rightarrow>
          (case peerIndex t (rm_FileID r) of
             None \<Rightarrow> (t, WriteHeader 200)
           | Some peers \<Rightarrow> (drop_listing (rm_PeerAddr r) peers (rm_FileID r) t, WriteHeader 200)))"

subsection \<open>Cleaning up\<close>

definition DefaultCleanupConfig :: CleanupConfig where
  "DefaultCleanupConfig =
     \<lparr>InactivityThreshold = 120 * Second, CleanupInterval = 15 * Second\<rparr>"

definition drop_if_empty :: "string \<Rightarrow> Tracker \<Rightarrow> Tracker" where
  "drop_if_empty f t =
     (case peerIndex t f of
        None \<Rightarrow> t
      | Some peers \<Rightarrow>
          if card peers = 0 then t\<lparr>peerIndex := (peerIndex t)(f := None)\<rparr> else t)"

definition remove_inactive ::
  "(string \<Rightarrow> string list) \<Rightarrow> (string \<Rightarrow> string list) \<Rightarrow> string \<Rightarrow> Tracker \<Rightarrow> Tracker" where
  "remove_inactive ordA ordB p t =
     (let t1 = t\<lparr>peerLastSeen := (peerLastSeen t)(p := None)\<rparr>;
          t2 = drop_peer_loop (ordA p) p t1
      in fold drop_if_empty (range_keys (ordB p) (peerIndex t2)) t2)"

definition inactive_peers :: "int \<Rightarrow> int \<Rightarrow> string list \<Rightarrow> Tracker \<Rightarrow> string list" where
  "inactive_peers threshold now ord t =
     filter (\<lambda>p. case peerLastSeen t p of
                   None \<Rightarrow> False | Some seen \<Rightarrow> time_Sub now seen > threshold)
       (range_keys ord (peerLastSeen t))"

definition cleanupInactivePeers ::
  "int \<Rightarrow> int \<Rightarrow> string list \<Rightarrow> (string \<Rightarrow> string list) \<Rightarrow> (string \<Rightarrow> string list) \<Rightarrow> Tracker \<Rightarrow> Tracker" where
  "cleanupInactivePeers threshold now ord ordA ordB t =
     fold (remove_inactive ordA ordB) (inactive_peers threshold now ord t) t"

text \<open>One tick of the goroutine \<^verbatim>\<open>StartCleanupLoop\<close> starts.\<close>

definition StartCleanupLoop_tick ::
  "int \<Rightarrow> string list \<Rightarrow> (string \<Rightarrow> string list) \<Rightarrow> (string \<Rightarrow> string list) \<Rightarrow> Tracker \<Rightarrow> Tracker" where
  "StartCleanupLoop_tick = cleanupInactivePeers (InactivityThreshold DefaultCleanupConfig)"

definition UpdatePeerActivity :: "string \<Rightarrow> int \<Rightarrow> Tracker \<Rightarrow> Tracker" where
  "UpdatePeerActivity p now t = t\<lparr>peerLastSeen := (peerLastSeen t)(p \<mapsto> now)\<rparr>"

definition remove_stale :: "int \<Rightarrow> (string \<Rightarrow> string list) \<Rightarrow> string \<Rightarrow> Tracker \<Rightarrow> Tracker" where
  "remove_stale threshold ordA p t =
     (case peerLastSeen t p of
        None \<Rightarrow> t
      | Some seen \<Rightarrow>
          if seen < threshold
          then let t1 = drop_peer_loop (ordA p) p t
               in t1\<lparr>peerLastSeen := (peerLastSeen t1)(p := None)\<rparr>
          else t)"

definition cleanupStalePeers ::
  "int \<Rightarrow> string list \<Rightarrow> (string \<Rightarrow> string list) \<Rightarrow> Tracker \<Rightarrow> Tracker" where
  "cleanupStalePeers now ord ordA t =
     fold (remove_stale (now - 2 * 60 * Second) ordA) (range_keys ord (peerLastSeen t)) t"

definition RemovePeer :: "string list \<Rightarrow> string \<Rightarrow> Tracker \<Rightarrow> Tracker" where
  "RemovePeer ord p t =
     (let t1 = drop_peer_loop ord p t in t1\<lparr>peerLastSeen := (peerLastSeen t1)(p := None)\<rparr>)"

subsection \<open>Queries\<close>

definition HandleGetMetadata :: "string \<Rightarrow> Tracker \<Rightarrow> response" where
  "HandleGetMetadata f t =
     (if f = '''' then HttpError 400 ''file_id is required''
      else case fileIndex t f of
        None \<Rightarrow> HttpError 404 ''File not found''
      | Some info \<Rightarrow> JsonFileInfo info)"

definition HandleGetPeers ::
  "string \<Rightarrow> int \<Rightarrow> string list \<Rightarrow> (string \<Rightarrow> string list) \<Rightarrow> string list \<Rightarrow> Tracker \<Rightarrow> Tracker \<times> response" where
  "HandleGetPeers f now ord ordA ordP t =
     (if f = '''' then (t, HttpError 400 ''file_id is required'')
      else
        let t1 = cleanupStalePeers now ord ordA t
        in (t1, case peerIndex t1 f of
                  None \<Rightarrow> JsonPeers []
                | Some peers \<Rightarrow>
                    if card peers = 0 then JsonPeers []
                    else JsonPeers (filter (\<lambda>p. p \<in> peers) (remdups ordP))))"

definition list_filter :: "(string \<Rightarrow> string) \<Rightarrow> string \<Rightarrow> string \<Rightarrow> FileInfo \<Rightarrow> bool" where
  "list_filter lower category search info \<longleftrightarrow>
     \<not> (category \<noteq> '''' \<and> \<not> contains (fi_Categories info) category) \<and>
     \<not> (search \<noteq> '''' \<and> \<not> StrContains (lower (fi_Name info)) (lower search))"

definition listed_files ::
  "(string \<Rightarrow> string) \<Rightarrow> string \<Rightarrow> string \<Rightarrow> string list \<Rightarrow> Tracker \<Rightarrow> FileInfo list" where
  "listed_files lower category search ord t =
     sort_key (\<lambda>info. - fi_NumPeers info)
       (filter (list_filter lower category search)
         (map (\<lambda>f. the (fileIndex t f)) (range_keys ord (fileIndex t))))"

definition perPage :: int where
  "perPage = 50"

definition page_of :: "int \<Rightarrow> 'a list \<Rightarrow> 'a list outcome" where
  "page_of page files =
     (let start = wrap64 (wrap64 (page - 1) * perPage);
          last = wrap64 (start + perPage)
      in if start \<ge> int (length files) then Return []
         else if last > int (length files) then go_slice start (int (length files)) files
         else go_slice start last files)"

text \<open>
  \<open>lower\<close> is \<^verbatim>\<open>strings.ToLower\<close>, whose Unicode tables are left open (the prelude's
  \<open>ToLower\<close> is its ASCII part). \<open>atoi\<close> is the value \<^verbatim>\<open>strconv.Atoi\<close> returns for the \<^verbatim>\<open>page\<close> query (its error is discarded).
  \<^verbatim>\<open>sort.Slice\<close> leaves ties in an unspecified order; so does the range over the map, which the
  stable sort here inherits.
\<close>

definition HandleListFiles ::
  "(string \<Rightarrow> string) \<Rightarrow> string \<Rightarrow> string \<Rightarrow> int \<Rightarrow> string list \<Rightarrow> Tracker \<Rightarrow> response outcome" where
  "HandleListFiles lower category search atoi ord t =
     (let page = (if atoi < 1 then 1 else atoi)
      in case page_of page (listed_files lower category search ord t) of
           Panic \<Rightarrow> Panic
         | Return files \<Rightarrow> Return (JsonFiles files (int (length files)) page))"

subsection \<open>Operations as one alphabet\<close>

text \<open>
  Everything that changes the tracker: the handlers of \<^verbatim>\<open>main.go\<close>'s routes, the tick of the
  cleanup goroutine and the two exported helpers. \<open>op_ok\<close> says that the iteration orders
  an operation carries visit every key.
\<close>

datatype tracker_op =
    Announce string "announcement option" int int
  | Heartbeat string "heartbeat option" int "string list"
  | Remove string "removal option"
  | GetPeers string int "string list" "string \<Rightarrow> string list" "string list"
  | CleanupTick int "string list" "string \<Rightarrow> string list" "string \<Rightarrow> string list"
  | Activity string int
  | Disconnect "string list" string

fun exec_op :: "tracker_op \<Rightarrow> Tracker \<Rightarrow> Tracker" where
  "exec_op (Announce meth body now1 now2) t = fst (HandleAnnounce meth body now1 now2 t)"
| "exec_op (Heartbeat meth body now ord) t = fst (HandleHeartbeat meth body now ord t)"
| "exec_op (Remove meth body) t = fst (HandleRemove meth body t)"
| "exec_op (GetPeers f now ord ordA ordP) t = fst (HandleGetPeers f now ord ordA ordP t)"
| "exec_op (CleanupTick now ord ordA ordB) t = StartCleanupLoop_tick now ord ordA ordB t"
| "exec_op (Activity p now) t = UpdatePeerActivity p now t"
| "exec_op (Disconnect ord p) t = RemovePeer ord p t"

fun op_ok :: "tracker_op \<Rightarrow> Tracker \<Rightarrow> bool" where
  "op_ok (Heartbeat meth body now ord) t \<longleftrightarrow>
     (case body of None \<Rightarrow> True | Some h \<Rightarrow> dom (peerIndex t) \<union> set (hb_FileIDs h) \<subseteq> set ord)"
| "op_ok (GetPeers f now ord ordA ordP) t \<longleftrightarrow>
     covers ord (peerLastSeen t) \<and> (\<forall>p \<in> set ord. covers (ordA p) (peerIndex t))"
| "op_ok (CleanupTick now ord ordA ordB) t \<longleftrightarrow>
     covers ord (peerLastSeen t) \<and>
     (\<forall>p \<in> set ord. covers (ordA p) (peerIndex t) \<and> covers (ordB p) (peerIndex t))"
| "op_ok (Disconnect ord p) t \<longleftrightarrow> covers ord (peerIndex t)"
| "op_ok _ t \<longleftrightarrow> True"

inductive tracker_step :: "Tracker \<Rightarrow> Tracker \<Rightarrow> bool" where
  operation: "op_ok op t \<Longrightarrow> tracker_step t (exec_op op t)"

inductive_cases tracker_stepE: "tracker_step t t'"

subsection \<open>The abstract tracker: who shares what, and when each peer was last heard of\<close>

type_synonym abs_state = "(string \<times> string) set \<times> (string \<rightharpoonup> int)"

definition shares :: "Tracker \<Rightarrow> (string \<times> string) set" where
  "shares t = {(f, p). \<exists>ps. peerIndex t f = Some ps \<and> p \<in> ps}"

definition abs_tracker :: "Tracker \<Rightarrow> abs_state" where
  "abs_tracker t = (shares t, peerLastSeen t)"

definition forget :: "string set \<Rightarrow> abs_state \<Rightarrow> abs_state" where
  "forget P A = ({(f, p) \<in> fst A. p \<notin> P}, \<lambda>p. if p \<in> P then None else snd A p)"

fun spec_op :: "tracker_op \<Rightarrow> abs_state \<Rightarrow> abs_state" where
  "spec_op (Announce meth body now1 now2) (S, L) =
     (case body of
        None \<Rightarrow> (S, L)
      | Some a \<Rightarrow>
          if meth \<noteq> ''POST'' then (S, L)
          else (insert (an_FileID a, an_PeerAddr a) S, L(an_PeerAddr a \<mapsto> now2)))"
| "spec_op (Heartbeat meth body now ord) (S, L) =
     (case body of
        None \<Rightarrow> (S, L)
      | Some h \<Rightarrow>
          if meth \<noteq> ''POST'' then (S, L)
          else ({(f, p) \<in> S. p \<noteq> hb_PeerAddr h} \<union> set (hb_FileIDs h) \<times> {hb_PeerAddr h},
                L(hb_PeerAddr h \<mapsto> now)))"
| "spec_op (Remove meth body) (S, L) =
     (case body of
        None \<Rightarrow> (S, L)
      | Some r \<Rightarrow>
          if meth \<noteq> ''POST'' then (S, L) else (S - {(rm_FileID r, rm_PeerAddr r)}, L))"
| "spec_op (GetPeers f now ord ordA ordP) (S, L) =
     (if f = '''' then (S, L)
      else forget {p. \<exists>seen. L p = Some seen \<and> seen < now - 120 * Second} (S, L))"
| "spec_op (CleanupTick now ord ordA ordB) (S, L) =
     forget {p. \<exists>seen. L p = Some seen \<and> now - seen > 120 * Second} (S, L)"
| "spec_op (Activity p now) (S, L) = (S, L(p \<mapsto> now))"
| "spec_op (Disconnect ord p) (S, L) = forget {p} (S, L)"

subsection \<open>The invariant\<close>

text \<open>
  What the indexes promise each other, file by file: a file with metadata has a non-empty
  peer list, its \<^verbatim>\<open>NumPeers\<close> is the length of that list, and it is stored under its own id;
  every listed peer has a last-seen time (so that the cleanups can find it).
\<close>

type_synonym file_entry = "FileInfo option \<times> string set option"

definition entry :: "Tracker \<Rightarrow> string \<Rightarrow> file_entry" where
  "entry t f = (fileIndex t f, peerIndex t f)"

definition entry_ok :: "string set \<Rightarrow> string \<Rightarrow> file_entry \<Rightarrow> bool" where
  "entry_ok seen f e \<longleftrightarrow>
     (case fst e of None \<Rightarrow> True
      | Some info \<Rightarrow> fi_FileID info = f \<and>
          (\<exists>ps. snd e = Some ps \<and> ps \<noteq> {} \<and> fi_NumPeers info = int (card ps))) \<and>
     (case snd e of None \<Rightarrow> True | Some ps \<Rightarrow> finite ps \<and> ps \<subseteq> seen)"

definition tracker_inv :: "Tracker \<Rightarrow> bool" where
  "tracker_inv t \<longleftrightarrow>
     (\<forall>f. entry_ok (dom (peerLastSeen t)) f (entry t f)) \<and>
     finite (dom (peerIndex t)) \<and> finite (dom (peerLastSeen t))"

definition drop_entry :: "string \<Rightarrow> file_entry \<Rightarrow> file_entry" where
  "drop_entry p e =
     (case snd e of
        None \<Rightarrow> e
      | Some ps \<Rightarrow>
          if p \<notin> ps then e
          else (case fst e of
                  None \<Rightarrow> (None, Some (ps - {p}))
                | Some info \<Rightarrow>
                    if card (ps - {p}) = 0 then (None, None)
                    else (Some (info\<lparr>fi_NumPeers := int (card (ps - {p}))\<rparr>), Some (ps - {p}))))"

definition empty_entry :: "file_entry \<Rightarrow> file_entry" where
  "empty_entry e =
     (fst e, case snd e of None \<Rightarrow> None | Some ps \<Rightarrow> if card ps = 0 then None else Some ps)"

subsection \<open>The loops, entry by entry\<close>

interpretation drop_loop: keyed_loop entry "drop_peer_from_file p" "\<lambda>_. drop_entry p" for p
  by unfold_locales
    (auto simp: entry_def drop_peer_from_file_def drop_listing_def drop_entry_def Let_def
      split: option.splits)

interpretation unshare_loop: keyed_loop entry "heartbeat_unshare h"
  "\<lambda>f. if f \<in> set (hb_FileIDs h) then id else drop_entry (hb_PeerAddr h)" for h
  by unfold_locales
    (auto simp: heartbeat_unshare_def drop_loop.get_same drop_loop.get_other)

interpretation empty_loop: keyed_loop entry drop_if_empty "\<lambda>_. empty_entry"
  by unfold_locales (auto simp: entry_def drop_if_empty_def empty_entry_def split: option.splits)

lemma entry_peerLastSeen [simp]: "entry (t\<lparr>peerLastSeen := L\<rparr>) = entry t"
  by (rule ext) (simp add: entry_def)

lemma snd_entry [simp]: "snd (entry t f) = peerIndex t f"
  by (simp add: entry_def)

lemma fst_entry [simp]: "fst (entry t f) = fileIndex t f"
  by (simp add: entry_def)

lemma drop_entry_id: "snd e = None \<Longrightarrow> drop_entry p e = e"
  by (simp add: drop_entry_def)

lemma peerLastSeen_drop_peer_from_file [simp]:
  "peerLastSeen (drop_peer_from_file p f t) = peerLastSeen t"
  by (simp add: drop_peer_from_file_def drop_listing_def Let_def split: option.splits)

lemma peerLastSeen_fold:
  "(\<And>f t. peerLastSeen (body f t) = peerLastSeen t) \<Longrightarrow>
     peerLastSeen (fold body fs t) = peerLastSeen t"
  by (induction fs arbitrary: t) simp_all

lemma peerLastSeen_drop_peer_loop [simp]: "peerLastSeen (drop_peer_loop ord p t) = peerLastSeen t"
  by (simp add: drop_peer_loop_def peerLastSeen_fold)

lemma entry_drop_peer_loop:
  assumes "covers ord (peerIndex t)"
  shows "entry (drop_peer_loop ord p t) f = drop_entry p (entry t f)"
proof (cases "f \<in> dom (peerIndex t)")
  case True
  with assms show ?thesis by (auto simp: drop_peer_loop_def drop_loop.get_fold covers_def)
next
  case False
  then have "peerIndex t f = None" by auto
  with False show ?thesis by (simp add: drop_peer_loop_def drop_loop.get_fold drop_entry_id)
qed

lemma dom_fold:
  "(\<And>f t. dom (peerIndex (body f t)) \<subseteq> dom (peerIndex t)) \<Longrightarrow>
     dom (peerIndex (fold body fs t)) \<subseteq> dom (peerIndex t)"
  by (induction fs arbitrary: t) (simp, simp, meson subset_trans)

lemma dom_drop_peer_from_file: "dom (peerIndex (drop_peer_from_file p f t)) \<subseteq> dom (peerIndex t)"
  by (auto simp: drop_peer_from_file_def drop_listing_def Let_def split: option.splits if_splits)

lemma dom_drop_peer_loop: "dom (peerIndex (drop_peer_loop ord p t)) \<subseteq> dom (peerIndex t)"
  unfolding drop_peer_loop_def by (rule dom_fold) (rule dom_drop_peer_from_file)

lemma peerLastSeen_drop_if_empty [simp]: "peerLastSeen (drop_if_empty f t) = peerLastSeen t"
  by (simp add: drop_if_empty_def split: option.splits)

lemma dom_drop_if_empty: "dom (peerIndex (fold drop_if_empty fs t)) \<subseteq> dom (peerIndex t)"
  by (rule dom_fold) (auto simp: drop_if_empty_def split: option.splits if_splits)

lemma entry_empty_loop:
  assumes "covers ord (peerIndex t)"
  shows "entry (fold drop_if_empty (range_keys ord (peerIndex t)) t) f = empty_entry (entry t f)"
proof -
  have "empty_entry (entry t f) = entry t f" if "peerIndex t f = None"
    using that by (simp add: empty_entry_def entry_def)
  then show ?thesis
    using assms by (cases "peerIndex t f") (auto simp: empty_loop.get_fold covers_def)
qed

subsection \<open>One entry at a time\<close>

definition listed :: "file_entry \<Rightarrow> string set" where
  "listed e = (case snd e of None \<Rightarrow> {} | Some ps \<Rightarrow> ps)"

lemma shares_listed: "shares t = {(f, p). p \<in> listed (entry t f)}"
  by (auto simp: shares_def listed_def split: option.splits)

lemma entry_ok_finite: "entry_ok seen f e \<Longrightarrow> finite (listed e)"
  by (auto simp: entry_ok_def listed_def split: option.splits)

lemma entry_ok_listed: "entry_ok seen f e \<Longrightarrow> listed e \<subseteq> seen"
  by (auto simp: entry_ok_def listed_def split: option.splits)

lemma entry_ok_mono: "entry_ok seen f e \<Longrightarrow> seen \<subseteq> seen' \<Longrightarrow> entry_ok seen' f e"
  by (auto simp: entry_ok_def split: option.splits)

lemma entry_ok_shrink: "entry_ok seen f e \<Longrightarrow> listed e \<subseteq> seen' \<Longrightarrow> entry_ok seen' f e"
  by (auto simp: entry_ok_def listed_def split: option.splits)

lemma entry_ok_drop: "entry_ok seen f e \<Longrightarrow> entry_ok seen f (drop_entry p e)"
  by (cases e)
    (auto simp: entry_ok_def drop_entry_def card_eq_0_iff simp del: card_Diff_insert
      split: option.splits)

lemma listed_drop: "entry_ok seen f e \<Longrightarrow> listed (drop_entry p e) = listed e - {p}"
  by (cases e)
    (auto simp: entry_ok_def drop_entry_def listed_def card_eq_0_iff simp del: card_Diff_insert
      split: option.splits)

lemma entry_ok_empty: "entry_ok seen f e \<Longrightarrow> entry_ok seen f (empty_entry e)"
  by (cases e) (auto simp: entry_ok_def empty_entry_def split: option.splits)

lemma listed_empty: "entry_ok seen f e \<Longrightarrow> listed (empty_entry e) = listed e"
  by (cases e) (auto simp: entry_ok_def empty_entry_def listed_def split: option.splits)

lemma tracker_inv_entry: "tracker_inv t \<Longrightarrow> entry_ok (dom (peerLastSeen t)) f (entry t f)"
  by (simp add: tracker_inv_def)

subsection \<open>Forgetting peers\<close>

lemma forget_forget: "forget P (forget Q A) = forget (P \<union> Q) A"
  by (auto simp: forget_def fun_eq_iff)

lemma forget_empty [simp]: "forget {} A = A"
  by (cases A) (auto simp: forget_def)

text \<open>
  The step every cleanup repeats. Both ways of dropping one peer, with and without the pass
  over empty lists, keep the invariant and forget exactly that peer.
\<close>

definition forgets :: "string \<Rightarrow> Tracker \<Rightarrow> Tracker \<Rightarrow> bool" where
  "forgets p t t' \<longleftrightarrow>
     tracker_inv t' \<and> abs_tracker t' = forget {p} (abs_tracker t) \<and>
     dom (peerIndex t') \<subseteq> dom (peerIndex t)"

lemma forgetsI:
  assumes inv: "tracker_inv t"
    and ok: "\<And>f. entry_ok (dom (peerLastSeen t)) f (entry t' f)"
    and listed: "\<And>f. listed (entry t' f) = listed (entry t f) - {p}"
    and dom: "dom (peerIndex t') \<subseteq> dom (peerIndex t)"
    and seen: "peerLastSeen t' = (peerLastSeen t)(p := None)"
  shows "forgets p t t'"
proof -
  have "entry_ok (dom (peerLastSeen t')) f (entry t' f)" for f
    by (rule entry_ok_shrink [OF ok]) (use entry_ok_listed [OF ok [of f]] in \<open>auto simp: listed seen\<close>)
  then have "tracker_inv t'"
    using inv dom by (auto simp: tracker_inv_def seen intro: finite_subset)
  moreover have "abs_tracker t' = forget {p} (abs_tracker t)"
    by (auto simp: abs_tracker_def forget_def shares_listed listed seen)
  ultimately show ?thesis using dom by (simp add: forgets_def)
qed

lemma RemovePeer_forgets:
  assumes "tracker_inv t" and "covers ord (peerIndex t)"
  shows "forgets p t (RemovePeer ord p t)"
proof (rule forgetsI [OF assms(1)])
  fix f
  have e: "entry (RemovePeer ord p t) f = drop_entry p (entry t f)"
    using assms(2) by (simp add: RemovePeer_def Let_def entry_drop_peer_loop)
  show "entry_ok (dom (peerLastSeen t)) f (entry (RemovePeer ord p t) f)"
    using entry_ok_drop tracker_inv_entry [OF assms(1)] by (simp add: e)
  show "listed (entry (RemovePeer ord p t) f) = listed (entry t f) - {p}"
    by (simp add: e listed_drop [OF tracker_inv_entry [OF assms(1)]])
qed (use dom_drop_peer_loop in \<open>auto simp: RemovePeer_def Let_def\<close>)

lemma remove_inactive_forgets:
  assumes "tracker_inv t" and "covers (ordA p) (peerIndex t)" and "covers (ordB p) (peerIndex t)"
  shows "forgets p t (remove_inactive ordA ordB p t)"
proof (rule forgetsI [OF assms(1)])
  let ?t1 = "t\<lparr>peerLastSeen := (peerLastSeen t)(p := None)\<rparr>"
  let ?t2 = "drop_peer_loop (ordA p) p ?t1"
  have cov: "covers (ordB p) (peerIndex ?t2)"
    using assms(3) by (rule covers_subset) (use dom_drop_peer_loop [of "ordA p" p ?t1] in simp)
  have e: "entry (remove_inactive ordA ordB p t) f = empty_entry (drop_entry p (entry t f))" for f
    using assms(2) by (simp add: remove_inactive_def Let_def entry_empty_loop [OF cov] entry_drop_peer_loop)
  fix f
  note ok = tracker_inv_entry [OF assms(1), of f]
  show "entry_ok (dom (peerLastSeen t)) f (entry (remove_inactive ordA ordB p t) f)"
    using ok by (simp add: e entry_ok_drop entry_ok_empty)
  show "listed (entry (remove_inactive ordA ordB p t) f) = listed (entry t f) - {p}"
    using ok by (simp add: e listed_drop [OF ok] listed_empty [OF entry_ok_drop [OF ok]])
  show "dom (peerIndex (remove_inactive ordA ordB p t)) \<subseteq> dom (peerIndex t)"
    using dom_drop_if_empty [of "range_keys (ordB p) (peerIndex ?t2)" ?t2]
      dom_drop_peer_loop [of "ordA p" p ?t1]
    by (auto simp: remove_inactive_def Let_def)
  show "peerLastSeen (remove_inactive ordA ordB p t) = (peerLastSeen t)(p := None)"
    by (simp add: remove_inactive_def Let_def peerLastSeen_fold)
qed

lemma forgetsD:
  assumes "forgets p t t'"
  shows "tracker_inv t'" and "abs_tracker t' = forget {p} (abs_tracker t)"
    and "dom (peerIndex t') \<subseteq> dom (peerIndex t)" and "peerLastSeen t' = (peerLastSeen t)(p := None)"
  using assms by (auto simp: forgets_def abs_tracker_def forget_def fun_eq_iff)

lemma cleanup_loop_forgets:
  assumes body: "\<And>p t. p \<in> set ps \<Longrightarrow> tracker_inv t \<Longrightarrow> dom (peerIndex t) \<subseteq> D \<Longrightarrow>
      forgets p t (body p t)"
  shows "tracker_inv t \<Longrightarrow> dom (peerIndex t) \<subseteq> D \<Longrightarrow>
    tracker_inv (fold body ps t) \<and> abs_tracker (fold body ps t) = forget (set ps) (abs_tracker t)"
  using body
proof (induction ps arbitrary: t)
  case (Cons p ps)
  then have f: "forgets p t (body p t)" by simp
  have "dom (peerIndex (body p t)) \<subseteq> D"
    using forgetsD(3) [OF f] Cons.prems(2) by (rule subset_trans)
  then have "tracker_inv (fold body ps (body p t)) \<and>
      abs_tracker (fold body ps (body p t)) = forget (set ps) (abs_tracker (body p t))"
    using Cons.IH forgetsD(1) [OF f] Cons.prems(3) by simp
  then show ?case
    using f by (auto simp: forgets_def forget_forget insert_commute Un_commute)
qed simp

lemma cleanupInactivePeers_refines:
  assumes inv: "tracker_inv t" and "covers ord (peerLastSeen t)"
    and cov: "\<And>p. p \<in> set ord \<Longrightarrow> covers (ordA p) (peerIndex t) \<and> covers (ordB p) (peerIndex t)"
    and thr: "- (2 ^ 63) \<le> thr" "thr < 2 ^ 63 - 1"
  shows "tracker_inv (cleanupInactivePeers thr now ord ordA ordB t) \<and>
    abs_tracker (cleanupInactivePeers thr now ord ordA ordB t) =
      forget {p. \<exists>seen. peerLastSeen t p = Some seen \<and> now - seen > thr} (abs_tracker t)"
proof -
  let ?ps = "inactive_peers thr now ord t"
  have ps: "set ?ps = {p. \<exists>seen. peerLastSeen t p = Some seen \<and> now - seen > thr}"
    using assms(2) thr
    by (auto simp: inactive_peers_def covers_def time_Sub_def split: option.splits)
  have body: "forgets p u (remove_inactive ordA ordB p u)"
    if "p \<in> set ?ps" and "tracker_inv u" and "dom (peerIndex u) \<subseteq> dom (peerIndex t)" for p u
  proof -
    from that(1) have "p \<in> set ord" by (auto simp: inactive_peers_def)
    with cov that(2,3) show ?thesis by (blast intro: remove_inactive_forgets covers_subset)
  qed
  show ?thesis
    using cleanup_loop_forgets [of ?ps "dom (peerIndex t)" "remove_inactive ordA ordB", OF body inv]
    by (simp add: cleanupInactivePeers_def ps)
qed

text \<open>
  A stale pass does nothing for a fresh peer and forgets a stale one; the last-seen times it
  reads are those at the start, since a pass for one peer leaves the others' times alone.
\<close>

definition stale :: "int \<Rightarrow> Tracker \<Rightarrow> string \<Rightarrow> bool" where
  "stale thr t p \<longleftrightarrow> (\<exists>seen. peerLastSeen t p = Some seen \<and> seen < thr)"

lemma remove_stale_RemovePeer:
  "remove_stale thr ordA p t = (if stale thr t p then RemovePeer (ordA p) p t else t)"
  by (auto simp: remove_stale_def RemovePeer_def stale_def Let_def split: option.splits)

lemma remove_stale_loop:
  assumes "distinct ps" and "tracker_inv t" and "\<And>p. p \<in> set ps \<Longrightarrow> covers (ordA p) (peerIndex t)"
  shows "fold (remove_stale thr ordA) ps t =
    fold (\<lambda>p. RemovePeer (ordA p) p) (filter (stale thr t) ps) t"
  using assms
proof (induction ps arbitrary: t)
  case (Cons p ps)
  show ?case
  proof (cases "stale thr t p")
    case True
    let ?u = "RemovePeer (ordA p) p t"
    have f: "forgets p t ?u" using Cons.prems by (simp add: RemovePeer_forgets)
    have "filter (stale thr ?u) ps = filter (stale thr t) ps"
      using Cons.prems(1) by (intro filter_cong refl) (auto simp: stale_def forgetsD(4) [OF f])
    moreover have "covers (ordA q) (peerIndex ?u)" if "q \<in> set ps" for q
      by (rule covers_subset [OF _ forgetsD(3) [OF f]]) (simp add: Cons.prems(3) that)
    ultimately show ?thesis
      using Cons.IH [of ?u] Cons.prems(1) forgetsD(1) [OF f] True
      by (simp add: remove_stale_RemovePeer)
  next
    case False
    with Cons show ?thesis by (simp add: remove_stale_RemovePeer)
  qed
qed simp

lemma cleanupStalePeers_refines:
  assumes inv: "tracker_inv t" and "covers ord (peerLastSeen t)"
    and cov: "\<And>p. p \<in> set ord \<Longrightarrow> covers (ordA p) (peerIndex t)"
  shows "tracker_inv (cleanupStalePeers now ord ordA t) \<and>
    abs_tracker (cleanupStalePeers now ord ordA t) =
      forget {p. \<exists>seen. peerLastSeen t p = Some seen \<and> seen < now - 120 * Second} (abs_tracker t)"
proof -
  let ?ps = "filter (stale (now - 2 * 60 * Second) t) (range_keys ord (peerLastSeen t))"
  have eq: "cleanupStalePeers now ord ordA t = fold (\<lambda>p. RemovePeer (ordA p) p) ?ps t"
    unfolding cleanupStalePeers_def using inv cov by (intro remove_stale_loop) auto
  have body: "forgets p u (RemovePeer (ordA p) p u)"
    if "p \<in> set ?ps" and "tracker_inv u" and "dom (peerIndex u) \<subseteq> dom (peerIndex t)" for p u
  proof (rule RemovePeer_forgets [OF that(2)])
    from that(1) have "p \<in> set ord" by simp
    then show "covers (ordA p) (peerIndex u)" using cov covers_subset that(3) by blast
  qed
  have "set ?ps = {p. \<exists>seen. peerLastSeen t p = Some seen \<and> seen < now - 120 * Second}"
    using assms(2) by (auto simp: covers_def stale_def)
  then show ?thesis
    using cleanup_loop_forgets [of ?ps "dom (peerIndex t)", OF body inv] by (simp add: eq)
qed

subsection \<open>Adding peers\<close>

text \<open>
  Announcements and heartbeats list a peer under a file and bring \<^verbatim>\<open>NumPeers\<close> up to date;
  \<open>lists_peer\<close> is what one such update does to an otherwise consistent tracker.
\<close>

definition share_entry :: "string \<Rightarrow> FileInfo option \<Rightarrow> file_entry \<Rightarrow> file_entry" where
  "share_entry p fi e =
     (let ps = insert p (listed e)
      in (map_option (\<lambda>info. info\<lparr>fi_NumPeers := int (card ps)\<rparr>) fi, Some ps))"

lemma entry_ok_share:
  assumes "entry_ok seen f e" and "p \<in> seen" and "\<And>info. fi = Some info \<Longrightarrow> fi_FileID info = f"
  shows "entry_ok seen f (share_entry p fi e)"
  using assms
  by (auto simp: entry_ok_def share_entry_def listed_def Let_def split: option.splits)

lemma listed_share [simp]: "listed (share_entry p fi e) = insert p (listed e)"
  by (simp add: share_entry_def listed_def Let_def)

lemma announced_entry:
  assumes "fst (HandleAnnounce ''POST'' (Some a) now1 now2 t) = t'"
  shows "entry t' f =
    (if f = an_FileID a
     then share_entry (an_PeerAddr a)
       (Some (case fileIndex t f of
                None \<Rightarrow> announced_info a now1
              | Some old \<Rightarrow> if fi_TotalHash old \<noteq> an_TotalHash a then announced_info a now1 else old))
       (entry t f)
     else entry t f)"
  using assms
  by (auto simp: HandleAnnounce_def entry_def share_entry_def set_NumPeers_def add_peer_def
      listed_def Let_def split: option.splits)

lemma peerLastSeen_HandleAnnounce:
  "peerLastSeen (fst (HandleAnnounce ''POST'' (Some a) now1 now2 t)) =
     (peerLastSeen t)(an_PeerAddr a \<mapsto> now2)"
  by (simp add: HandleAnnounce_def Let_def)

lemma dom_HandleAnnounce:
  "dom (peerIndex (fst (HandleAnnounce ''POST'' (Some a) now1 now2 t))) =
     insert (an_FileID a) (dom (peerIndex t))"
  by (auto simp: HandleAnnounce_def add_peer_def Let_def)

lemma HandleAnnounce_inv:
  assumes "tracker_inv t"
  shows "tracker_inv (fst (HandleAnnounce ''POST'' (Some a) now1 now2 t))"
proof -
  let ?t = "fst (HandleAnnounce ''POST'' (Some a) now1 now2 t)"
  let ?seen = "insert (an_PeerAddr a) (dom (peerLastSeen t))"
  have "entry_ok ?seen f (entry ?t f)" for f
  proof -
    have ok: "entry_ok ?seen f (entry t f)"
      by (rule entry_ok_mono [OF tracker_inv_entry [OF assms]]) auto
    have "fi_FileID old = f" if "fileIndex t f = Some old" for old
      using ok that by (simp add: entry_ok_def)
    then show ?thesis
      using ok unfolding announced_entry [OF refl]
      by (auto intro!: entry_ok_share simp: announced_info_def split: option.splits if_splits)
  qed
  then show ?thesis
    using assms by (simp add: tracker_inv_def peerLastSeen_HandleAnnounce dom_HandleAnnounce)
qed

lemma HandleAnnounce_abs:
  "abs_tracker (fst (HandleAnnounce ''POST'' (Some a) now1 now2 t)) =
     (insert (an_FileID a, an_PeerAddr a) (shares t), (peerLastSeen t)(an_PeerAddr a \<mapsto> now2))"
  by (auto simp: abs_tracker_def shares_listed announced_entry [OF refl]
      peerLastSeen_HandleAnnounce split: if_splits)

lemma entry_heartbeat_share:
  "entry (heartbeat_share p f t) f' =
     (if f' = f then share_entry p (fileIndex t f) (entry t f) else entry t f')"
  by (auto simp: heartbeat_share_def entry_def share_entry_def set_NumPeers_def add_peer_def
      listed_def Let_def split: option.splits)

lemma peerLastSeen_heartbeat_share [simp]: "peerLastSeen (heartbeat_share p f t) = peerLastSeen t"
  by (simp add: heartbeat_share_def Let_def)

lemma dom_heartbeat_share: "dom (peerIndex (heartbeat_share p f t)) = insert f (dom (peerIndex t))"
  by (auto simp: heartbeat_share_def add_peer_def Let_def)

lemma heartbeat_share_inv:
  assumes "tracker_inv t" and "p \<in> dom (peerLastSeen t)"
  shows "tracker_inv (heartbeat_share p f t)"
proof -
  have "fi_FileID info = f" if "fileIndex t f = Some info" for info
    using tracker_inv_entry [OF assms(1), of f] that by (simp add: entry_ok_def)
  then have "entry_ok (dom (peerLastSeen t)) f' (entry (heartbeat_share p f t) f')" for f'
    using assms tracker_inv_entry [OF assms(1), of f']
    by (auto simp: entry_heartbeat_share intro!: entry_ok_share)
  then show ?thesis
    using assms(1) by (simp add: tracker_inv_def dom_heartbeat_share)
qed

lemma heartbeat_share_loop:
  assumes "tracker_inv t" and "p \<in> dom (peerLastSeen t)"
  shows "tracker_inv (fold (heartbeat_share p) fs t) \<and>
    (\<forall>f. listed (entry (fold (heartbeat_share p) fs t) f) =
      (if f \<in> set fs then insert p (listed (entry t f)) else listed (entry t f))) \<and>
    dom (peerIndex (fold (heartbeat_share p) fs t)) = set fs \<union> dom (peerIndex t)"
  using assms
proof (induction fs arbitrary: t)
  case (Cons f fs)
  have "tracker_inv (heartbeat_share p f t)" and "p \<in> dom (peerLastSeen (heartbeat_share p f t))"
    using Cons.prems by (simp_all only: heartbeat_share_inv peerLastSeen_heartbeat_share)
  from Cons.IH [OF this] show ?case
    by (auto simp: entry_heartbeat_share dom_heartbeat_share)
qed simp

subsection \<open>Heartbeats and removal\<close>

lemma entry_unshare_loop:
  assumes "dom (peerIndex t) \<subseteq> set ord"
  shows "entry (fold (heartbeat_unshare h) (range_keys ord (peerIndex t)) t) f =
    (if f \<in> set (hb_FileIDs h) then entry t f else drop_entry (hb_PeerAddr h) (entry t f))"
proof (cases "f \<in> dom (peerIndex t)")
  case True
  with assms show ?thesis by (auto simp: unshare_loop.get_fold)
next
  case False
  then have "peerIndex t f = None" by auto
  with False show ?thesis by (simp add: unshare_loop.get_fold drop_entry_id)
qed

lemma HandleHeartbeat_refines:
  assumes inv: "tracker_inv t" and ord: "dom (peerIndex t) \<union> set (hb_FileIDs h) \<subseteq> set ord"
    and t'_def: "t' = fst (HandleHeartbeat ''POST'' (Some h) now ord t)"
  shows "tracker_inv t'" and "abs_tracker t' =
    ({(f, p) \<in> shares t. p \<noteq> hb_PeerAddr h} \<union> set (hb_FileIDs h) \<times> {hb_PeerAddr h},
     (peerLastSeen t)(hb_PeerAddr h \<mapsto> now))"
proof -
  let ?p = "hb_PeerAddr h"
  let ?t1 = "t\<lparr>peerLastSeen := (peerLastSeen t)(?p \<mapsto> now)\<rparr>"
  let ?t2 = "fold (heartbeat_share ?p) (hb_FileIDs h) ?t1"
  have t': "t' = fold (heartbeat_unshare h) (range_keys ord (peerIndex ?t2)) ?t2"
    by (simp add: t'_def HandleHeartbeat_def Let_def)
  have "tracker_inv ?t1"
    using inv by (auto simp: tracker_inv_def intro: entry_ok_mono)
  from heartbeat_share_loop [OF this, of ?p "hb_FileIDs h"]
  have inv2: "tracker_inv ?t2" and dom2: "dom (peerIndex ?t2) \<subseteq> set ord"
    and list2: "\<And>f. listed (entry ?t2 f) =
      (if f \<in> set (hb_FileIDs h) then insert ?p (listed (entry t f)) else listed (entry t f))"
    using ord by auto
  have seen: "peerLastSeen t' = (peerLastSeen t)(?p \<mapsto> now)"
    by (simp add: t' peerLastSeen_fold heartbeat_unshare_def)
  then have seen2: "dom (peerLastSeen t') = dom (peerLastSeen ?t2)"
    by (simp add: peerLastSeen_fold)
  have e: "entry t' f = (if f \<in> set (hb_FileIDs h) then entry ?t2 f else drop_entry ?p (entry ?t2 f))" for f
    unfolding t' by (rule entry_unshare_loop [OF dom2])
  have "entry_ok (dom (peerLastSeen ?t2)) f (entry t' f)" for f
    using tracker_inv_entry [OF inv2, of f] by (simp add: e entry_ok_drop)
  moreover have "dom (peerIndex t') \<subseteq> dom (peerIndex ?t2)"
    unfolding t' by (rule dom_fold) (simp add: heartbeat_unshare_def dom_drop_peer_from_file)
  ultimately show "tracker_inv t'"
    using inv2 seen2 by (auto simp: tracker_inv_def intro: finite_subset)
  have "listed (entry t' f) = listed (entry t f) - {?p} \<union> (if f \<in> set (hb_FileIDs h) then {?p} else {})" for f
    by (auto simp: e listed_drop [OF tracker_inv_entry [OF inv2]] list2)
  then show "abs_tracker t' =
    ({(f, p) \<in> shares t. p \<noteq> ?p} \<union> set (hb_FileIDs h) \<times> {?p}, (peerLastSeen t)(?p \<mapsto> now))"
    by (auto simp: abs_tracker_def shares_listed seen split: if_splits)
qed

lemma HandleRemove_entry:
  assumes "tracker_inv t"
  shows "entry (fst (HandleRemove ''POST'' (Some r) t)) f =
    (if f = rm_FileID r then drop_entry (rm_PeerAddr r) (entry t f) else entry t f)"
  using tracker_inv_entry [OF assms, of "rm_FileID r"]
  by (cases "fileIndex t (rm_FileID r)"; cases "peerIndex t (rm_FileID r)")
    (auto simp: HandleRemove_def drop_listing_def drop_entry_def entry_def entry_ok_def Let_def
      fun_upd_idem card_eq_0_iff simp del: card_Diff_insert)

lemma HandleRemove_refines:
  assumes inv: "tracker_inv t" and t'_def: "t' = fst (HandleRemove ''POST'' (Some r) t)"
  shows "tracker_inv t'" and
    "abs_tracker t' = (shares t - {(rm_FileID r, rm_PeerAddr r)}, peerLastSeen t)"
proof -
  have e: "entry t' f = (if f = rm_FileID r then drop_entry (rm_PeerAddr r) (entry t f) else entry t f)" for f
    unfolding t'_def by (rule HandleRemove_entry [OF inv])
  have seen: "peerLastSeen t' = peerLastSeen t"
    by (simp add: t'_def HandleRemove_def drop_listing_def Let_def split: option.splits)
  have "dom (peerIndex t') \<subseteq> dom (peerIndex t)"
    by (auto simp: t'_def HandleRemove_def drop_listing_def Let_def split: option.splits if_splits)
  moreover have "entry_ok (dom (peerLastSeen t)) f (entry t' f)" for f
    using tracker_inv_entry [OF inv, of f] by (auto simp: e intro: entry_ok_drop)
  ultimately show "tracker_inv t'"
    using inv seen by (auto simp: tracker_inv_def intro: finite_subset)
  show "abs_tracker t' = (shares t - {(rm_FileID r, rm_PeerAddr r)}, peerLastSeen t)"
    by (auto simp: abs_tracker_def shares_listed seen e listed_drop [OF tracker_inv_entry [OF inv]]
        split: if_splits)
qed

subsection \<open>Every operation keeps the invariant and refines the abstract tracker\<close>

lemma rejected_announce:
  "tracker_inv t \<Longrightarrow> \<not> (meth = ''POST'' \<and> body \<noteq> None) \<Longrightarrow> op = Announce meth body now1 now2 \<Longrightarrow>
     tracker_inv (exec_op op t) \<and> abs_tracker (exec_op op t) = spec_op op (abs_tracker t)"
  by (auto simp: abs_tracker_def HandleAnnounce_def split: option.splits)

lemma rejected_heartbeat:
  "tracker_inv t \<Longrightarrow> \<not> (meth = ''POST'' \<and> body \<noteq> None) \<Longrightarrow> op = Heartbeat meth body now ord \<Longrightarrow>
     tracker_inv (exec_op op t) \<and> abs_tracker (exec_op op t) = spec_op op (abs_tracker t)"
  by (auto simp: abs_tracker_def HandleHeartbeat_def split: option.splits)

lemma rejected_remove:
  "tracker_inv t \<Longrightarrow> \<not> (meth = ''POST'' \<and> body \<noteq> None) \<Longrightarrow> op = Remove meth body \<Longrightarrow>
     tracker_inv (exec_op op t) \<and> abs_tracker (exec_op op t) = spec_op op (abs_tracker t)"
  by (auto simp: abs_tracker_def HandleRemove_def split: option.splits)

lemma exec_op_refines:
  assumes inv: "tracker_inv t" and ok: "op_ok op t"
  shows "tracker_inv (exec_op op t) \<and> abs_tracker (exec_op op t) = spec_op op (abs_tracker t)"
proof (cases op)
  case (Announce meth body now1 now2)
  then show ?thesis
    using HandleAnnounce_inv [OF inv] HandleAnnounce_abs rejected_announce [OF inv]
    by (cases "meth = ''POST'' \<and> body \<noteq> None") (auto simp: abs_tracker_def)
next
  case (Heartbeat meth body now ord)
  then show ?thesis
    using HandleHeartbeat_refines [OF inv _ refl, of _ ord now] ok rejected_heartbeat [OF inv]
    by (cases "meth = ''POST'' \<and> body \<noteq> None") (auto simp: abs_tracker_def)
next
  case (Remove meth body)
  then show ?thesis
    using HandleRemove_refines [OF inv refl] rejected_remove [OF inv]
    by (cases "meth = ''POST'' \<and> body \<noteq> None") (auto simp: abs_tracker_def)
next
  case (GetPeers f now ord ordA ordP)
  then show ?thesis
    using cleanupStalePeers_refines [OF inv, of ord ordA now] inv ok
    by (auto simp: HandleGetPeers_def Let_def abs_tracker_def)
next
  case (CleanupTick now ord ordA ordB)
  then show ?thesis
    using cleanupInactivePeers_refines [OF inv, of ord ordA ordB "120 * Second" now] ok
    by (auto simp: StartCleanupLoop_tick_def DefaultCleanupConfig_def abs_tracker_def Second_def)
next
  case (Activity p now)
  then show ?thesis
    using inv by (auto simp: UpdatePeerActivity_def abs_tracker_def shares_def tracker_inv_def
        intro: entry_ok_mono)
next
  case (Disconnect ord p)
  then show ?thesis
    using RemovePeer_forgets [OF inv] ok by (simp add: forgets_def abs_tracker_def)
qed

lemma NewTracker_inv: "tracker_inv NewTracker"
  by (simp add: tracker_inv_def NewTracker_def entry_ok_def)

interpretation tracker_system: invariant_system "\<lambda>t. t = NewTracker" tracker_step tracker_inv
  by unfold_locales (auto simp: NewTracker_inv exec_op_refines elim: tracker_stepE)

text \<open>Runs of the tracker are runs of the abstract one.\<close>

definition spec_step :: "abs_state \<Rightarrow> abs_state \<Rightarrow> bool" where
  "spec_step a b \<longleftrightarrow> (\<exists>op. b = spec_op op a)"

interpretation tracker_spec: simulation "\<lambda>t. t = NewTracker" tracker_step tracker_inv abs_tracker spec_step
  by unfold_locales (auto simp: spec_step_def exec_op_refines elim!: tracker_stepE intro!: r_into_rtranclp)

text \<open>
  C11: In every state the tracker can reach by serving requests and cleaning up, the two indexes
  agree: a file with metadata has at least one peer, its advertised \<^verbatim>\<open>NumPeers\<close> is exactly the
  number of listed peers, its record carries the id it is stored under, and every listed peer
  has a last-seen time.
\<close>

theorem tracker_indexes_agree:
  assumes "tracker_step\<^sup>*\<^sup>* NewTracker t" and "fileIndex t f = Some info"
  shows "fi_FileID info = f \<and>
    (\<exists>ps. peerIndex t f = Some ps \<and> ps \<noteq> {} \<and> finite ps \<and>
      fi_NumPeers info = int (card ps) \<and> ps \<subseteq> dom (peerLastSeen t))"
proof -
  have "entry_ok (dom (peerLastSeen t)) f (entry t f)"
    using tracker_system.reachable_inv [OF refl assms(1)] by (rule tracker_inv_entry)
  with assms(2) show ?thesis by (auto simp: entry_ok_def split: option.splits)
qed

text \<open>
  C4: Refinement. Whatever operation a reachable tracker performs, and in whatever order its
  loops visit the maps, its effect on who shares what and on the last-seen times is the one the
  abstract tracker specifies: an announcement adds one pair, a heartbeat replaces the peer's
  files by the listed ones, a removal takes one pair away, and the cleanups forget exactly the
  peers that were last seen more than two minutes ago.
\<close>

theorem tracker_refines_spec:
  assumes "tracker_step\<^sup>*\<^sup>* NewTracker t" and "op_ok op t"
  shows "abs_tracker (exec_op op t) = spec_op op (abs_tracker t)"
  using exec_op_refines tracker_system.reachable_inv [OF refl assms(1)] assms(2) by blast

subsection \<open>What the queries answer\<close>

lemma listed_fresh:
  assumes "tracker_inv t" and "(f, p) \<in> shares t"
  shows "\<exists>seen. peerLastSeen t p = Some seen"
  using entry_ok_listed [OF tracker_inv_entry [OF assms(1), of f]] assms(2)
  by (auto simp: shares_listed)

lemma HandleGetPeers_inv:
  assumes inv: "tracker_inv t" and ok: "op_ok (GetPeers f now ord ordA ordP) t"
    and f: "f \<noteq> ''''" and ordP: "{p. (f, p) \<in> shares t} \<subseteq> set ordP"
  shows "\<exists>t' ps. HandleGetPeers f now ord ordA ordP t = (t', JsonPeers ps) \<and> distinct ps \<and>
    set ps = {p. (f, p) \<in> shares t \<and>
      (\<exists>seen. peerLastSeen t p = Some seen \<and> now - 120 * Second \<le> seen)} \<and>
    shares t' = {(g, p) \<in> shares t. \<exists>seen. peerLastSeen t p = Some seen \<and> now - 120 * Second \<le> seen} \<and>
    peerLastSeen t' = (\<lambda>p. case peerLastSeen t p of
        None \<Rightarrow> None
      | Some seen \<Rightarrow> if now - 120 * Second \<le> seen then Some seen else None)"
proof -
  let ?t = "cleanupStalePeers now ord ordA t"
  from inv ok have inv': "tracker_inv ?t" and abs: "abs_tracker ?t =
      forget {p. \<exists>seen. peerLastSeen t p = Some seen \<and> seen < now - 120 * Second} (abs_tracker t)"
    using cleanupStalePeers_refines [of t ord ordA now] by auto
  let ?F = "{p. (f, p) \<in> shares t \<and>
      (\<exists>seen. peerLastSeen t p = Some seen \<and> now - 120 * Second \<le> seen)}"
  have L: "listed (entry ?t f) = ?F"
  proof -
    have "listed (entry ?t f) = {p. (f, p) \<in> shares ?t}" by (simp add: shares_listed)
    also have "\<dots> = ?F"
      using abs listed_fresh [OF inv, of f]
      by (fastforce simp: abs_tracker_def forget_def)
    finally show ?thesis .
  qed
  have "\<exists>ps. HandleGetPeers f now ord ordA ordP t = (?t, JsonPeers ps) \<and> distinct ps \<and> set ps = ?F"
  proof (cases "peerIndex ?t f")
    case None
    with L have "?F = {}" by (simp add: listed_def)
    with None f show ?thesis by (simp add: HandleGetPeers_def Let_def)
  next
    case (Some ps)
    with L have ps: "ps = ?F" by (simp add: listed_def)
    have "finite ps" using entry_ok_finite [OF tracker_inv_entry [OF inv', of f]] L ps by simp
    then show ?thesis
      using Some f ps ordP by (auto simp: HandleGetPeers_def Let_def)
  qed
  moreover have "shares ?t = {(g, p) \<in> shares t. \<exists>seen. peerLastSeen t p = Some seen \<and> now - 120 * Second \<le> seen}"
    using abs listed_fresh [OF inv] by (fastforce simp: abs_tracker_def forget_def)
  moreover have "peerLastSeen ?t = (\<lambda>p. case peerLastSeen t p of
        None \<Rightarrow> None
      | Some seen \<Rightarrow> if now - 120 * Second \<le> seen then Some seen else None)"
    using abs by (auto simp: abs_tracker_def forget_def fun_eq_iff split: option.splits)
  ultimately show ?thesis by blast
qed

text \<open>
  C23: A request for the peers of a file is answered with exactly the peers that share the file
  and were seen within the last two minutes, each once, in every reachable state and for every
  iteration order. Afterwards every peer not seen within two minutes is forgotten, for this file
  and for all others, and the other peers keep their files and their last-seen times.
\<close>

theorem HandleGetPeers_exact:
  assumes "tracker_step\<^sup>*\<^sup>* NewTracker t" and "op_ok (GetPeers f now ord ordA ordP) t"
    and "f \<noteq> ''''" and "{p. (f, p) \<in> shares t} \<subseteq> set ordP"
  shows "\<exists>t' ps. HandleGetPeers f now ord ordA ordP t = (t', JsonPeers ps) \<and> distinct ps \<and>
    set ps = {p. (f, p) \<in> shares t \<and>
      (\<exists>seen. peerLastSeen t p = Some seen \<and> now - 120 * Second \<le> seen)} \<and>
    shares t' = {(g, p) \<in> shares t. \<exists>seen. peerLastSeen t p = Some seen \<and> now - 120 * Second \<le> seen} \<and>
    peerLastSeen t' = (\<lambda>p. case peerLastSeen t p of
        None \<Rightarrow> None
      | Some seen \<Rightarrow> if now - 120 * Second \<le> seen then Some seen else None)"
  using tracker_system.reachable_inv [OF refl assms(1)] assms(2-4) by (rule HandleGetPeers_inv)


lemma set_listed_files:
  "covers ord (fileIndex t) \<Longrightarrow>
     set (listed_files lower category search ord t) =
       {info. info \<in> ran (fileIndex t) \<and> list_filter lower category search info}"
  by (auto simp: listed_files_def ran_def covers_def image_iff) force+

text \<open>
  The page computation for every 64-bit page number: the start offset \<open>(page - 1) * 50\<close> is taken
  modulo \<open>2^64\<close>, and the slice expression panics exactly when the result is negative as a signed
  number.
\<close>

definition page_offset :: "int \<Rightarrow> int" where
  "page_offset page = ((page - 1) * 50) mod 2 ^ 64"

lemma wrap64_neg_iff: "wrap64 x < 0 \<longleftrightarrow> 2 ^ 63 \<le> x mod 2 ^ 64"
  and wrap64_nonneg: "x mod 2 ^ 64 < 2 ^ 63 \<Longrightarrow> wrap64 x = x mod 2 ^ 64"
  using pos_mod_sign [of "2 ^ 64" x] pos_mod_bound [of "2 ^ 64" x] by (auto simp: wrap64_mod)

lemma page_of_eq:
  assumes "1 \<le> page" and "page < 2 ^ 63" and "length xs < 2 ^ 62"
  shows "page_of page xs =
    (if 2 ^ 63 \<le> page_offset page then Panic else Return (take 50 (drop (nat (page_offset page)) xs)))"
proof -
  let ?start = "wrap64 ((page - 1) * 50)"
  have w: "wrap64 (page - 1) = page - 1" using assms(1,2) by (simp add: wrap64_small)
  have len: "int (length xs) < 4611686018427387904" using assms(3) by simp
  show ?thesis
  proof (cases "2 ^ 63 \<le> page_offset page")
    case True
    then have "?start < 0" using wrap64_neg_iff by (simp add: page_offset_def)
    then show ?thesis using True by (simp add: page_of_def perPage_def w Let_def go_slice_def)
  next
    case False
    then obtain k where k: "page_offset page = int k" "k < 2 ^ 63"
      by (metis not_le page_offset_def pos_mod_sign zero_less_numeral zero_less_power zero_le_imp_eq_int
          of_nat_less_iff of_nat_numeral of_nat_power)
    have start: "?start = int k" using False k(1) wrap64_nonneg by (simp add: page_offset_def)
    have last: "wrap64 (int k + 50) = int (k + 50)" if "k < length xs"
      using that len by (simp add: wrap64_small)
    have "page_of page xs =
     (if length xs \<le> k then Return []
      else if length xs < k + 50 then go_slice (int k) (int (length xs)) xs
      else go_slice (int k) (int (k + 50)) xs)"
      unfolding page_of_def perPage_def w start Let_def using last by (simp del: of_nat_add)
    also have "\<dots> = Return (take 50 (drop k xs))"
      by (simp add: go_slice_def)
    finally show ?thesis using False by (simp add: k(1))
  qed
qed


lemma distinct_listed_files:
  assumes "tracker_inv t"
  shows "distinct (listed_files lower category search ord t)"
proof -
  have "inj_on (\<lambda>f. the (fileIndex t f)) (set (range_keys ord (fileIndex t)))"
  proof (rule inj_onI)
    fix f g
    assume "f \<in> set (range_keys ord (fileIndex t))" "g \<in> set (range_keys ord (fileIndex t))"
      and eq: "the (fileIndex t f) = the (fileIndex t g)"
    then obtain a b where "fileIndex t f = Some a" "fileIndex t g = Some b" by auto
    then show "f = g"
      using eq tracker_inv_entry [OF assms, of f] tracker_inv_entry [OF assms, of g]
      by (auto simp: entry_ok_def)
  qed
  then show ?thesis by (simp add: listed_files_def distinct_map)
qed

lemma length_listed_files:
  assumes "tracker_inv t" and "covers ord (fileIndex t)"
  shows "length (listed_files lower category search ord t) \<le> card (ran (fileIndex t))"
proof -
  have "finite (ran (fileIndex t))"
    using assms(2) finite_subset [of "dom (fileIndex t)" "set ord"] by (auto simp: covers_def finite_ran)
  then have "card (set (listed_files lower category search ord t)) \<le> card (ran (fileIndex t))"
    by (intro card_mono) (auto simp: set_listed_files [OF assms(2)])
  then show ?thesis by (simp add: distinct_card [OF distinct_listed_files [OF assms(1)]])
qed


text \<open>
  C39: When the listing panics. For every 64-bit value of the page query, the handler panics in the
  slice expression exactly if \<open>(page - 1) * 50\<close> modulo \<open>2^64\<close> is at least \<open>2^63\<close>, so that the signed
  start offset is negative and both bounds checks pass, whatever the tracker holds; on every other
  page it answers. In particular every page number from \<open>2^63 div 50 + 2\<close> to \<open>2^64 div 50 + 1\<close>
  panics, and so does \<open>2^63 - 1\<close>, which \<^verbatim>\<open>strconv.Atoi\<close> returns for every longer digit string.
\<close>

theorem HandleListFiles_panics_iff:
  assumes reach: "tracker_step\<^sup>*\<^sup>* NewTracker t" and cov: "covers ord (fileIndex t)"
    and few: "card (ran (fileIndex t)) < 2 ^ 62"
  shows "(\<forall>page. - (2 ^ 63) \<le> page \<and> page < 2 ^ 63 \<longrightarrow>
      (HandleListFiles lower category search page ord t = Panic \<longleftrightarrow>
         2 ^ 63 \<le> ((max 1 page - 1) * 50) mod 2 ^ 64)) \<and>
    (\<forall>page \<in> {2 ^ 63 div 50 + 2 .. 2 ^ 64 div 50 + 1} \<union> {2 ^ 63 - 1}.
      HandleListFiles lower category search page ord t = Panic)"
proof -
  let ?L = "listed_files lower category search ord t"
  have inv: "tracker_inv t" using tracker_system.reachable_inv [OF refl reach] .
  have len: "length ?L < 2 ^ 62" using length_listed_files [OF inv cov] few by (rule le_less_trans)
  have iff: "HandleListFiles lower category search page ord t = Panic \<longleftrightarrow>
      2 ^ 63 \<le> ((max 1 page - 1) * 50) mod 2 ^ 64" if "page < 2 ^ 63" for page
  proof -
    have "page_of (max 1 page) ?L = Panic \<longleftrightarrow> 2 ^ 63 \<le> ((max 1 page - 1) * 50) mod 2 ^ 64"
      using that page_of_eq [OF _ _ len, of "max 1 page"] by (simp add: page_offset_def)
    moreover have "HandleListFiles lower category search page ord t = Panic \<longleftrightarrow>
        page_of (max 1 page) ?L = Panic"
      by (auto simp: HandleListFiles_def Let_def max_def split: outcome.splits)
    ultimately show ?thesis by simp
  qed
  moreover have "2 ^ 63 \<le> ((max 1 page - 1) * 50) mod (2 ^ 64 :: int)"
    if "page \<in> {2 ^ 63 div 50 + 2 .. 2 ^ 64 div 50 + 1} \<union> {2 ^ 63 - 1}" for page :: int
    using that by auto
  moreover have "page < 2 ^ 63"
    if "page \<in> {2 ^ 63 div 50 + 2 .. 2 ^ 64 div 50 + 1} \<union> {2 ^ 63 - 1}" for page :: int
    using that by auto
  ultimately show ?thesis by blast
qed

text \<open>
  C24: What an announcement publishes. After it, the metadata query for the file answers, the
  announcing peer and all the earlier ones are listed, and the record is the announced one
  exactly when the file was unknown or known under another total hash; otherwise the earlier
  record stays, with the peer count brought up to date.
\<close>

theorem HandleAnnounce_publishes:
  assumes "an_FileID a \<noteq> ''''"
    and "t' = fst (HandleAnnounce ''POST'' (Some a) now1 now2 t)"
  shows "\<exists>info ps. HandleGetMetadata (an_FileID a) t' = JsonFileInfo info \<and>
    peerIndex t' (an_FileID a) = Some ps \<and>
    ps = insert (an_PeerAddr a) {p. (an_FileID a, p) \<in> shares t} \<and>
    info = (case fileIndex t (an_FileID a) of
        None \<Rightarrow> announced_info a now1
      | Some old \<Rightarrow> if fi_TotalHash old = an_TotalHash a then old else announced_info a now1)
      \<lparr>fi_NumPeers := int (card ps)\<rparr>"
proof -
  let ?f = "an_FileID a"
  have e: "entry t' ?f = share_entry (an_PeerAddr a)
       (Some (case fileIndex t ?f of
                None \<Rightarrow> announced_info a now1
              | Some old \<Rightarrow> if fi_TotalHash old \<noteq> an_TotalHash a then announced_info a now1 else old))
       (entry t ?f)"
    using announced_entry [OF assms(2) [symmetric], of ?f] by simp
  have "listed (entry t ?f) = {p. (?f, p) \<in> shares t}" by (simp add: shares_listed)
  with e assms(1) show ?thesis
    by (cases "fileIndex t ?f") (auto simp: HandleGetMetadata_def entry_def share_entry_def Let_def)
qed

text \<open>
  The order in which \<^verbatim>\<open>RemovePeer\<close>'s loop ranges over the peer index does not matter: any
  two orders that visit every key leave the same tracker.
\<close>

theorem RemovePeer_order_independent:
  assumes "covers ord (peerIndex t)" and "covers ord' (peerIndex t)"
  shows "RemovePeer ord p t = RemovePeer ord' p t"
proof -
  have "entry (RemovePeer ord p t) = entry (RemovePeer ord' p t)"
    using assms by (simp add: RemovePeer_def Let_def entry_drop_peer_loop fun_eq_iff)
  then have "fileIndex (RemovePeer ord p t) = fileIndex (RemovePeer ord' p t)"
    and "peerIndex (RemovePeer ord p t) = peerIndex (RemovePeer ord' p t)"
    by (simp_all add: fun_eq_iff entry_def)
  then show ?thesis by (simp add: RemovePeer_def Let_def)
qed

subsection \<open>A run of the tracker\<close>

definition example_announcement :: announcement where
  "example_announcement =
     \<lparr>an_FileID = ''f1'', an_PeerAddr = ''1.2.3.4:3000|10.0.0.2:3000'', an_Name = ''a.txt'',
      an_Size = 5, an_Description = ''d'', an_Categories = [''misc''], an_Extension = ''.txt'',
      an_NumChunks = 1, an_ChunkSize = 16777216, an_ChunkHashes = [''h''], an_TotalHash = ''th'',
      an_TotalSize = 5\<rparr>"

definition example_info :: FileInfo where
  "example_info = (announced_info example_announcement 5)\<lparr>fi_NumPeers := 1\<rparr>"

definition example_tracker :: Tracker where
  "example_tracker =
     \<lparr>fileIndex = [''f1'' \<mapsto> example_info],
      peerIndex = [''f1'' \<mapsto> {''1.2.3.4:3000|10.0.0.2:3000''}],
      peerLastSeen = [''1.2.3.4:3000|10.0.0.2:3000'' \<mapsto> 7]\<rparr>"

lemma example_tracker_step:
  "exec_op (Announce ''POST'' (Some example_announcement) 5 7) NewTracker = example_tracker"
  by (simp add: example_tracker_def example_info_def example_announcement_def NewTracker_def
      HandleAnnounce_def announced_info_def set_NumPeers_def add_peer_def Let_def)

lemma example_tracker_reachable: "tracker_step\<^sup>*\<^sup>* NewTracker example_tracker"
  using tracker_step.operation [of "Announce ''POST'' (Some example_announcement) 5 7" NewTracker]
  by (simp add: example_tracker_step r_into_rtranclp del: exec_op.simps)

theorem tracker_indexes_agree_witness:
  "tracker_step\<^sup>*\<^sup>* NewTracker example_tracker \<and>
   fileIndex example_tracker ''f1'' = Some example_info \<and> fi_FileID example_info = ''f1'' \<and>
   (\<exists>ps. peerIndex example_tracker ''f1'' = Some ps \<and> ps \<noteq> {} \<and> finite ps \<and>
      fi_NumPeers example_info = int (card ps) \<and> ps \<subseteq> dom (peerLastSeen example_tracker))"
proof -
  have h: "fileIndex example_tracker ''f1'' = Some example_info"
    by (simp add: example_tracker_def)
  show ?thesis
    using tracker_indexes_agree [OF example_tracker_reachable h] example_tracker_reachable h by simp
qed

theorem tracker_refines_spec_witness:
  "tracker_step\<^sup>*\<^sup>* NewTracker example_tracker \<and>
   op_ok (Disconnect [''f1''] ''1.2.3.4:3000|10.0.0.2:3000'') example_tracker \<and>
   abs_tracker (exec_op (Disconnect [''f1''] ''1.2.3.4:3000|10.0.0.2:3000'') example_tracker) =
     ({}, Map.empty)"
proof -
  have ok: "op_ok (Disconnect [''f1''] ''1.2.3.4:3000|10.0.0.2:3000'') example_tracker"
    by (simp add: covers_def example_tracker_def)
  have "spec_op (Disconnect [''f1''] ''1.2.3.4:3000|10.0.0.2:3000'') (abs_tracker example_tracker) =
      ({}, Map.empty)"
    by (auto simp: abs_tracker_def shares_def forget_def example_tracker_def)
  then show ?thesis
    using tracker_refines_spec [OF example_tracker_reachable ok] ok example_tracker_reachable
    by simp
qed

theorem HandleGetPeers_exact_witness:
  "\<exists>t' ps. HandleGetPeers ''f1'' 9 [''1.2.3.4:3000|10.0.0.2:3000''] (\<lambda>_. [''f1''])
        [''1.2.3.4:3000|10.0.0.2:3000''] example_tracker = (t', JsonPeers ps) \<and>
     set ps = {''1.2.3.4:3000|10.0.0.2:3000''} \<and>
     (''f1'', ''1.2.3.4:3000|10.0.0.2:3000'') \<in> shares t'"
proof -
  let ?p = "''1.2.3.4:3000|10.0.0.2:3000''"
  have ok: "op_ok (GetPeers ''f1'' 9 [?p] (\<lambda>_. [''f1'']) [?p]) example_tracker"
    by (simp add: covers_def example_tracker_def)
  have sh: "{p. (''f1'', p) \<in> shares example_tracker} = {?p}"
    by (auto simp: shares_def example_tracker_def)
  have seen: "peerLastSeen example_tracker ?p = Some 7" "9 - 120 * Second \<le> 7"
    by (simp_all add: example_tracker_def Second_def)
  have "{p. (''f1'', p) \<in> shares example_tracker \<and>
      (\<exists>seen. peerLastSeen example_tracker p = Some seen \<and> 9 - 120 * Second \<le> seen)} = {?p}"
    using sh by (auto simp: example_tracker_def Second_def)
  moreover have "(''f1'', ?p) \<in> shares example_tracker" using sh by blast
  ultimately show ?thesis
    using HandleGetPeers_exact [OF example_tracker_reachable ok] sh seen by fastforce
qed

lemma example_tracker_listing:
  "covers [''f1''] (fileIndex example_tracker)" "card (ran (fileIndex example_tracker)) < 2 ^ 62"
  by (simp_all add: covers_def example_tracker_def)


theorem HandleListFiles_panics_iff_witness:
  "HandleListFiles ToLower '''' '''' (2 ^ 63 - 1) [''f1''] example_tracker = Panic \<and>
   HandleListFiles ToLower '''' '''' 7 [''f1''] example_tracker \<noteq> Panic"
proof -
  note iff = HandleListFiles_panics_iff [OF example_tracker_reachable example_tracker_listing,
      of ToLower "''''" "''''", THEN conjunct1]
  show ?thesis using iff [THEN spec, of "2 ^ 63 - 1"] iff [THEN spec, of 7] by simp
qed

theorem HandleAnnounce_publishes_witness:
  "\<exists>info ps. HandleGetMetadata ''f1'' example_tracker = JsonFileInfo info \<and>
     peerIndex example_tracker ''f1'' = Some ps \<and> fi_TotalHash info = ''th''"
proof -
  have t: "example_tracker = fst (HandleAnnounce ''POST'' (Some example_announcement) 5 7 NewTracker)"
    using example_tracker_step by simp
  have f: "an_FileID example_announcement = ''f1''" by (simp add: example_announcement_def)
  have "an_FileID example_announcement \<noteq> ''''" by (simp add: f)
  from HandleAnnounce_publishes [OF this t] show ?thesis
    by (auto simp: f NewTracker_def announced_info_def example_announcement_def)
qed

theorem RemovePeer_order_independent_witness:
  "RemovePeer [''f1'', ''f2''] ''1.2.3.4:3000|10.0.0.2:3000'' example_tracker =
     RemovePeer [''f2'', ''f1''] ''1.2.3.4:3000|10.0.0.2:3000'' example_tracker"
  by (rule RemovePeer_order_independent) (simp_all add: covers_def example_tracker_def)

end
