(* ===== verification/Piece_Manager.thy ===== *)
theory Piece_Manager
  imports Go_Prelude "HOL-Library.Multiset"
begin

section \<open>The piece manager (piece\_manager.go)\<close>

text \<open>
  The piece manager records for every piece of a download its status and which peers have it.
  All its methods run under its lock, so each is one atomic step; \<^verbatim>\<open>GetNextPieces\<close> takes only
  the read lock although it writes, but the download loop is its only caller and calls it from
  one goroutine. Pieces are stored by value: each \<^verbatim>\<open>*PieceInfo\<close> is held under one key only.
  \<open>sortSlice\<close> stands for \<^verbatim>\<open>sort.Slice\<close>: it gets the comparison the source passes, numbered by
  its calls because the source's comparison draws random numbers.
\<close>

subsection \<open>State\<close>

datatype PieceStatus = PieceMissing | PieceRequested | PieceReceived | PieceVerified

record PieceInfo =
  pi_Index :: int
  pi_Size :: int
  pi_Hash :: string
  pi_Status :: PieceStatus
  pi_Peers :: "string set"
  pi_Priority :: int

record PieceManager =
  pieces :: "int \<rightharpoonup> PieceInfo"
  numPieces :: int

type_synonym sorter = "(nat \<Rightarrow> PieceInfo \<Rightarrow> PieceInfo \<Rightarrow> bool) \<Rightarrow> PieceInfo list \<Rightarrow> PieceInfo list"

subsection \<open>Operations\<close>

definition new_piece :: "nat \<Rightarrow> string \<Rightarrow> PieceInfo" where
  "new_piece i h =
     \<lparr>pi_Index = int i, pi_Size = 0, pi_Hash = h, pi_Status = PieceMissing, pi_Peers = {},
      pi_Priority = 0\<rparr>"

text \<open>The constructor's loop from \<open>i\<close>, with \<open>k\<close> iterations left; \<^verbatim>\<open>hashes[i]\<close> may panic.\<close>

fun init_pieces ::
  "string list \<Rightarrow> nat \<Rightarrow> nat \<Rightarrow> (int \<rightharpoonup> PieceInfo) \<Rightarrow> (int \<rightharpoonup> PieceInfo) outcome" where
  "init_pieces hashes i 0 m = Return m"
| "init_pieces hashes i (Suc k) m =
     (if i < length hashes then init_pieces hashes (Suc i) k (m(int i \<mapsto> new_piece i (hashes ! i)))
      else Panic)"

definition NewPieceManager :: "int \<Rightarrow> string list \<Rightarrow> PieceManager outcome" where
  "NewPieceManager n hashes =
     (case init_pieces hashes 0 (nat n) Map.empty of
        Panic \<Rightarrow> Panic
      | Return m \<Rightarrow> Return \<lparr>pieces = m, numPieces = n\<rparr>)"

definition update_piece :: "string \<Rightarrow> int \<Rightarrow> PieceManager \<Rightarrow> PieceManager" where
  "update_piece peerAddr idx pm =
     (case pieces pm idx of
        None \<Rightarrow> pm
      | Some piece \<Rightarrow>
          let peers = insert peerAddr (pi_Peers piece)
          in pm\<lparr>pieces := (pieces pm)(idx \<mapsto>
               piece\<lparr>pi_Peers := peers, pi_Priority := 1000 - int (card peers)\<rparr>)\<rparr>)"

definition UpdatePeerPieces :: "string \<Rightarrow> int list \<Rightarrow> PieceManager \<Rightarrow> PieceManager" where
  "UpdatePeerPieces peerAddr pieceIndices pm = fold (update_piece peerAddr) pieceIndices pm"

definition unpeer_piece :: "string \<Rightarrow> PieceInfo \<Rightarrow> PieceInfo" where
  "unpeer_piece peerAddr piece =
     (let peers = pi_Peers piece - {peerAddr}
      in piece\<lparr>pi_Peers := peers,
               pi_Status := (if pi_Status piece = PieceRequested then PieceMissing else pi_Status piece),
               pi_Priority := 1000 - int (card peers)\<rparr>)"

definition remove_from_piece :: "string \<Rightarrow> int \<Rightarrow> PieceManager \<Rightarrow> PieceManager" where
  "remove_from_piece peerAddr idx pm =
     (case pieces pm idx of
        None \<Rightarrow> pm
      | Some piece \<Rightarrow> pm\<lparr>pieces := (pieces pm)(idx \<mapsto> unpeer_piece peerAddr piece)\<rparr>)"

definition pm_RemovePeer :: "int list \<Rightarrow> string \<Rightarrow> PieceManager \<Rightarrow> PieceManager" where
  "pm_RemovePeer ord peerAddr pm =
     fold (remove_from_piece peerAddr) (range_keys ord (pieces pm)) pm"

definition pieces_with :: "PieceStatus \<Rightarrow> int list \<Rightarrow> PieceManager \<Rightarrow> PieceInfo list" where
  "pieces_with st ord pm =
     filter (\<lambda>piece. pi_Status piece = st \<and> card (pi_Peers piece) > 0)
       (map (\<lambda>i. the (pieces pm i)) (range_keys ord (pieces pm)))"

definition candidates :: "int list \<Rightarrow> int list \<Rightarrow> PieceManager \<Rightarrow> PieceInfo list" where
  "candidates ord ord' pm =
     (let missing = pieces_with PieceMissing ord pm
      in if length missing = 0 then pieces_with PieceRequested ord' pm else missing)"

definition piece_less :: "(nat \<Rightarrow> bool) \<Rightarrow> (nat \<Rightarrow> bool) \<Rightarrow> nat \<Rightarrow> PieceInfo \<Rightarrow> PieceInfo \<Rightarrow> bool" where
  "piece_less below coin call a b =
     (if below call then pi_Priority a > pi_Priority b else coin call)"

definition mark :: "PieceStatus \<Rightarrow> int \<Rightarrow> PieceManager \<Rightarrow> PieceManager" where
  "mark st idx pm =
     (case pieces pm idx of
        None \<Rightarrow> pm
      | Some piece \<Rightarrow> pm\<lparr>pieces := (pieces pm)(idx \<mapsto> piece\<lparr>pi_Status := st\<rparr>)\<rparr>)"

text \<open>The marking loop dereferences \<^verbatim>\<open>pm.pieces[piece.Index]\<close>, which panics at an absent key.\<close>

fun mark_requested :: "PieceInfo list \<Rightarrow> PieceManager \<Rightarrow> PieceManager outcome" where
  "mark_requested [] pm = Return pm"
| "mark_requested (p # ps) pm =
     (case pieces pm (pi_Index p) of
        None \<Rightarrow> Panic
      | Some _ \<Rightarrow> mark_requested ps (mark PieceRequested (pi_Index p) pm))"

definition GetNextPieces ::
  "sorter \<Rightarrow> (nat \<Rightarrow> bool) \<Rightarrow> (nat \<Rightarrow> bool) \<Rightarrow> int list \<Rightarrow> int list \<Rightarrow> int \<Rightarrow> PieceManager \<Rightarrow>
   (PieceManager \<times> PieceInfo list) outcome" where
  "GetNextPieces sortSlice below coin ord ord' n pm =
     (let cs = sortSlice (piece_less below coin) (candidates ord ord' pm)
      in case (if int (length cs) > n then go_slice 0 n cs else Return cs) of
           Panic \<Rightarrow> Panic
         | Return ps \<Rightarrow>
             (case mark_requested ps pm of
                Panic \<Rightarrow> Panic
              | Return pm' \<Rightarrow> Return (pm', ps)))"

definition MarkPieceStatus :: "int \<Rightarrow> PieceStatus \<Rightarrow> PieceManager \<Rightarrow> PieceManager" where
  "MarkPieceStatus index status pm = mark status index pm"

definition IsComplete :: "int list \<Rightarrow> PieceManager \<Rightarrow> bool" where
  "IsComplete ord pm =
     list_all (\<lambda>i. case pieces pm i of None \<Rightarrow> True | Some p \<Rightarrow> pi_Status p = PieceVerified)
       (range_keys ord (pieces pm))"

subsection \<open>Invariant and steps\<close>

definition piece_ok :: "int \<Rightarrow> PieceInfo \<Rightarrow> bool" where
  "piece_ok i p \<longleftrightarrow>
     pi_Index p = i \<and> finite (pi_Peers p) \<and>
     (pi_Peers p \<noteq> {} \<longrightarrow> pi_Priority p = 1000 - int (card (pi_Peers p))) \<and>
     (pi_Peers p = {} \<longrightarrow> pi_Priority p \<in> {0, 1000})"

definition pm_inv :: "PieceManager \<Rightarrow> bool" where
  "pm_inv pm \<longleftrightarrow>
     dom (pieces pm) = {i. 0 \<le> i \<and> i < numPieces pm} \<and>
     (\<forall>i p. pieces pm i = Some p \<longrightarrow> piece_ok i p)"

inductive pm_step :: "PieceManager \<Rightarrow> PieceManager \<Rightarrow> bool" where
  update: "pm_step pm (UpdatePeerPieces addr idxs pm)"
| remove: "covers ord (pieces pm) \<Longrightarrow> pm_step pm (pm_RemovePeer ord addr pm)"
| next_pieces: "GetNextPieces sortSlice below coin ord ord' n pm = Return (pm', ps) \<Longrightarrow> pm_step pm pm'"
| mark_status: "pm_step pm (MarkPieceStatus i st pm)"

inductive_cases pm_stepE: "pm_step pm pm'"

subsection \<open>Lemmas\<close>

lemma init_pieces_Return:
  "i + k \<le> length hs \<Longrightarrow>
     init_pieces hs i k m =
       Return (\<lambda>j. if int i \<le> j \<and> j < int (i + k) then Some (new_piece (nat j) (hs ! nat j)) else m j)"
proof (induction k arbitrary: i m)
  case (Suc k)
  then have "init_pieces hs i (Suc k) m =
      Return (\<lambda>j. if int (Suc i) \<le> j \<and> j < int (Suc i + k)
        then Some (new_piece (nat j) (hs ! nat j)) else (m(int i \<mapsto> new_piece i (hs ! i))) j)"
    by (simp add: add.assoc)
  also have "\<dots> = Return (\<lambda>j. if int i \<le> j \<and> j < int (i + Suc k)
        then Some (new_piece (nat j) (hs ! nat j)) else m j)"
    by (intro arg_cong [where f = Return] ext) auto
  finally show ?case .
qed (auto simp: fun_eq_iff)

lemma init_pieces_Panic: "length hs < i + k \<Longrightarrow> i \<le> length hs \<Longrightarrow> init_pieces hs i k m = Panic"
  by (induction hs i k m rule: init_pieces.induct) auto

lemma NewPieceManager_Return:
  assumes "n \<le> int (length hs)"
  shows "NewPieceManager n hs = Return
    \<lparr>pieces = (\<lambda>j. if 0 \<le> j \<and> j < n then Some (new_piece (nat j) (hs ! nat j)) else None),
     numPieces = n\<rparr>"
proof -
  have "nat n \<le> length hs" using assms by simp
  then have "init_pieces hs 0 (nat n) Map.empty =
      Return (\<lambda>j. if 0 \<le> j \<and> j < n then Some (new_piece (nat j) (hs ! nat j)) else None)"
    by (subst init_pieces_Return) (auto simp: fun_eq_iff)
  then show ?thesis by (simp add: NewPieceManager_def)
qed

lemma NewPieceManager_inv: "NewPieceManager n hs = Return pm \<Longrightarrow> pm_inv pm"
proof (cases "n \<le> int (length hs)")
  case True
  moreover assume "NewPieceManager n hs = Return pm"
  ultimately show ?thesis
    by (auto simp: NewPieceManager_Return pm_inv_def piece_ok_def new_piece_def dom_def split: if_splits)
next
  case False
  then have "NewPieceManager n hs = Panic"
    by (simp add: NewPieceManager_def init_pieces_Panic)
  moreover assume "NewPieceManager n hs = Return pm"
  ultimately show ?thesis by simp
qed

interpretation remove_loop: keyed_loop pieces "remove_from_piece addr"
  "\<lambda>_. map_option (unpeer_piece addr)" for addr
  by unfold_locales (auto simp: remove_from_piece_def split: option.splits)

lemma pieces_pm_RemovePeer:
  assumes "covers ord (pieces pm)"
  shows "pieces (pm_RemovePeer ord addr pm) i = map_option (unpeer_piece addr) (pieces pm i)"
  using assms by (cases "pieces pm i") (auto simp: pm_RemovePeer_def remove_loop.get_fold covers_def)

lemma numPieces_fold:
  "(\<And>x pm. numPieces (body x pm) = numPieces pm) \<Longrightarrow> numPieces (fold body xs pm) = numPieces pm"
  by (induction xs arbitrary: pm) simp_all

lemma numPieces_ops [simp]:
  "numPieces (update_piece addr i pm) = numPieces pm"
  "numPieces (remove_from_piece addr i pm) = numPieces pm"
  "numPieces (mark st i pm) = numPieces pm"
  by (simp_all add: update_piece_def remove_from_piece_def mark_def Let_def split: option.splits)

lemma pieces_update_piece:
  "pieces (update_piece addr i pm) j =
     (if j = i then map_option (\<lambda>p. p\<lparr>pi_Peers := insert addr (pi_Peers p),
        pi_Priority := 1000 - int (card (insert addr (pi_Peers p)))\<rparr>) (pieces pm i)
      else pieces pm j)"
  by (auto simp: update_piece_def Let_def split: option.splits)

lemma pieces_mark [simp]:
  "pieces (mark st i pm) j =
     (if j = i then map_option (\<lambda>p. p\<lparr>pi_Status := st\<rparr>) (pieces pm j) else pieces pm j)"
  by (auto simp: mark_def split: option.splits)

lemma pm_invI:
  assumes "pm_inv pm" and "numPieces pm' = numPieces pm"
    and "\<And>i. pieces pm' i = map_option (h i) (pieces pm i)"
    and "\<And>i p. pieces pm i = Some p \<Longrightarrow> piece_ok i p \<Longrightarrow> piece_ok i (h i p)"
  shows "pm_inv pm'"
proof -
  have "dom (pieces pm') = dom (pieces pm)" using assms(3) by (auto simp: dom_def)
  with assms show ?thesis by (auto simp: pm_inv_def)
qed

lemma update_piece_inv: "pm_inv pm \<Longrightarrow> pm_inv (update_piece addr i pm)"
  by (rule pm_invI [where h = "\<lambda>j p. if j = i then p\<lparr>pi_Peers := insert addr (pi_Peers p),
        pi_Priority := 1000 - int (card (insert addr (pi_Peers p)))\<rparr> else p"])
    (auto simp: pieces_update_piece piece_ok_def map_option.id [unfolded id_def])

lemma UpdatePeerPieces_inv: "pm_inv pm \<Longrightarrow> pm_inv (UpdatePeerPieces addr idxs pm)"
  unfolding UpdatePeerPieces_def
  by (induction idxs arbitrary: pm) (simp_all add: update_piece_inv)

lemma mark_inv: "pm_inv pm \<Longrightarrow> pm_inv (mark st i pm)"
  by (rule pm_invI [where h = "\<lambda>j p. if j = i then p\<lparr>pi_Status := st\<rparr> else p"])
    (auto simp: piece_ok_def map_option.id [unfolded id_def])

lemma pm_RemovePeer_inv:
  assumes "pm_inv pm" and "covers ord (pieces pm)"
  shows "pm_inv (pm_RemovePeer ord addr pm)"
proof (rule pm_invI [OF assms(1), where h = "\<lambda>_. unpeer_piece addr"])
  show "numPieces (pm_RemovePeer ord addr pm) = numPieces pm"
    by (simp add: pm_RemovePeer_def numPieces_fold)
qed (auto simp: pieces_pm_RemovePeer [OF assms(2)] unpeer_piece_def piece_ok_def Let_def)

lemma mark_requested_eq:
  "mark_requested ps pm = Return pm' \<Longrightarrow> pm' = fold (mark PieceRequested) (map pi_Index ps) pm"
  by (induction ps arbitrary: pm) (auto split: option.splits)

lemma fold_mark_inv: "pm_inv pm \<Longrightarrow> pm_inv (fold (mark st) is pm)"
  by (induction "is" arbitrary: pm) (simp_all add: mark_inv)

lemma GetNextPieces_inv:
  assumes "GetNextPieces sortSlice below coin ord ord' n pm = Return (pm', ps)" and "pm_inv pm"
  shows "pm_inv pm'"
  using assms by (auto simp: GetNextPieces_def Let_def fold_mark_inv split: outcome.splits
      dest!: mark_requested_eq)

interpretation pm_system: invariant_system
  "\<lambda>pm. \<exists>n hashes. NewPieceManager n hashes = Return pm" pm_step pm_inv
  by unfold_locales
    (auto simp: NewPieceManager_inv UpdatePeerPieces_inv pm_RemovePeer_inv MarkPieceStatus_def mark_inv
      GetNextPieces_inv elim!: pm_stepE)

subsection \<open>Choosing the next pieces\<close>

definition downloadable :: "PieceManager \<Rightarrow> PieceStatus \<Rightarrow> int \<Rightarrow> bool" where
  "downloadable pm st i \<longleftrightarrow>
     (\<exists>p. pieces pm i = Some p \<and> pi_Status p = st \<and> pi_Peers p \<noteq> {})"

definition eligible :: "PieceManager \<Rightarrow> int \<Rightarrow> bool" where
  "eligible pm i \<longleftrightarrow>
     downloadable pm PieceMissing i \<or>
     (\<forall>j. \<not> downloadable pm PieceMissing j) \<and> downloadable pm PieceRequested i"

lemma pm_inv_piece: "pm_inv pm \<Longrightarrow> pieces pm i = Some p \<Longrightarrow> piece_ok i p"
  by (simp add: pm_inv_def)

lemma set_pieces_with:
  assumes "pm_inv pm" and "covers ord (pieces pm)"
  shows "set (pieces_with st ord pm) = {p. pieces pm (pi_Index p) = Some p \<and> downloadable pm st (pi_Index p)}"
proof (rule set_eqI)
  fix p
  have "p \<in> set (pieces_with st ord pm) \<longleftrightarrow>
      (\<exists>i. pieces pm i = Some p) \<and> pi_Status p = st \<and> 0 < card (pi_Peers p)"
    using assms(2) by (auto simp: pieces_with_def covers_def image_iff domIff Bex_def) force+
  also have "\<dots> \<longleftrightarrow> pieces pm (pi_Index p) = Some p \<and> pi_Status p = st \<and> pi_Peers p \<noteq> {}"
    using pm_inv_piece [OF assms(1)] by (auto simp: piece_ok_def card_gt_0_iff)
  also have "\<dots> \<longleftrightarrow> p \<in> {p. pieces pm (pi_Index p) = Some p \<and> downloadable pm st (pi_Index p)}"
    by (auto simp: downloadable_def)
  finally show "p \<in> set (pieces_with st ord pm) \<longleftrightarrow>
      p \<in> {p. pieces pm (pi_Index p) = Some p \<and> downloadable pm st (pi_Index p)}" .
qed

lemma distinct_pieces_with:
  assumes "pm_inv pm"
  shows "distinct (map pi_Index (pieces_with st ord pm))"
proof -
  have "map pi_Index (map (\<lambda>i. the (pieces pm i)) (range_keys ord (pieces pm))) = range_keys ord (pieces pm)"
    using pm_inv_piece [OF assms] by (auto intro!: map_idI simp: piece_ok_def)
  then have "distinct (map pi_Index (map (\<lambda>i. the (pieces pm i)) (range_keys ord (pieces pm))))"
    by simp
  then show ?thesis unfolding pieces_with_def by (rule distinct_map_filter)
qed

lemma set_candidates:
  assumes "pm_inv pm" and "covers ord (pieces pm)" and "covers ord' (pieces pm)"
  shows "set (candidates ord ord' pm) = {p. pieces pm (pi_Index p) = Some p \<and> eligible pm (pi_Index p)}"
proof (cases "pieces_with PieceMissing ord pm")
  case Nil
  have "\<not> downloadable pm PieceMissing j" for j
  proof
    assume d: "downloadable pm PieceMissing j"
    then obtain p where p: "pieces pm j = Some p" by (auto simp: downloadable_def)
    then have "pi_Index p = j" using pm_inv_piece [OF assms(1)] by (simp add: piece_ok_def)
    with d p have "p \<in> set (pieces_with PieceMissing ord pm)"
      using assms by (simp add: set_pieces_with)
    with Nil show False by simp
  qed
  with Nil show ?thesis
    using assms by (simp add: candidates_def Let_def set_pieces_with eligible_def)
next
  case (Cons p ps)
  then have "p \<in> set (pieces_with PieceMissing ord pm)" by simp
  then have "downloadable pm PieceMissing (pi_Index p)" using assms by (simp add: set_pieces_with)
  moreover have "candidates ord ord' pm = pieces_with PieceMissing ord pm"
    using Cons by (simp add: candidates_def)
  ultimately show ?thesis
    using assms by (auto simp: set_pieces_with eligible_def)
qed

lemma distinct_candidates: "pm_inv pm \<Longrightarrow> distinct (map pi_Index (candidates ord ord' pm))"
  by (simp add: candidates_def Let_def distinct_pieces_with)

lemma mark_requested_Return:
  assumes "\<forall>p \<in> set ps. pieces pm (pi_Index p) \<noteq> None"
  shows "mark_requested ps pm = Return (fold (mark PieceRequested) (map pi_Index ps) pm)"
  using assms
proof (induction ps arbitrary: pm)
  case (Cons p ps)
  then obtain q where "pieces pm (pi_Index p) = Some q" by auto
  moreover have "\<forall>r \<in> set ps. pieces (mark PieceRequested (pi_Index p) pm) (pi_Index r) \<noteq> None"
    using Cons.prems by simp
  ultimately show ?case using Cons.IH by simp
qed simp

lemma pieces_fold_mark:
  "pieces (fold (mark st) is pm) i =
     (if i \<in> set is then map_option (\<lambda>p. p\<lparr>pi_Status := st\<rparr>) (pieces pm i) else pieces pm i)"
  by (induction "is" arbitrary: pm) (auto simp: option.map_comp o_def)

lemma GetNextPieces_eq:
  assumes inv: "pm_inv pm" and cov: "covers ord (pieces pm)" "covers ord' (pieces pm)"
    and perm: "\<And>less xs. mset (sortSlice less xs) = mset xs" and n: "0 \<le> n"
    and cs: "cs = sortSlice (piece_less below coin) (candidates ord ord' pm)"
  shows "GetNextPieces sortSlice below coin ord ord' n pm =
    Return (fold (mark PieceRequested) (map pi_Index (take (nat n) cs)) pm, take (nat n) cs)"
proof -
  have "set cs = set (candidates ord ord' pm)"
    using perm by (metis cs set_mset_mset)
  then have ex: "\<forall>p \<in> set (take (nat n) cs). pieces pm (pi_Index p) \<noteq> None"
    using set_candidates [OF inv cov] by (auto dest!: in_set_takeD)
  have "(if int (length cs) > n then go_slice 0 n cs else Return cs) = Return (take (nat n) cs)"
    using n by (auto simp: go_slice_def)
  then show ?thesis
    by (simp add: GetNextPieces_def Let_def mark_requested_Return [OF ex] flip: cs)
qed

text \<open>
  C9: Choosing pieces never panics on a piece manager the download reaches, and what it returns
  is right for every random draw and every iteration order: at most \<^verbatim>\<open>n\<close> distinct pieces, as many
  as there are, each known, held by some peer, and missing (or already requested when no missing
  piece has a peer), never one that is received or verified; afterwards exactly these are marked
  as requested and nothing else has changed. The sort is used only as a permutation.
\<close>

theorem GetNextPieces_spec:
  assumes start: "NewPieceManager m hashes = Return pm0" and reach: "pm_step\<^sup>*\<^sup>* pm0 pm"
    and cov: "covers ord (pieces pm)" "covers ord' (pieces pm)"
    and perm: "\<And>less xs. mset (sortSlice less xs) = mset xs" and n: "0 \<le> n"
  shows "\<exists>pm' ps. GetNextPieces sortSlice below coin ord ord' n pm = Return (pm', ps) \<and>
    length ps = min (nat n) (card {i. eligible pm i}) \<and> distinct (map pi_Index ps) \<and>
    (\<forall>p \<in> set ps. pieces pm (pi_Index p) = Some p \<and> eligible pm (pi_Index p)) \<and>
    (\<forall>i. pieces pm' i = (if i \<in> pi_Index ` set ps
       then map_option (\<lambda>p. p\<lparr>pi_Status := PieceRequested\<rparr>) (pieces pm i) else pieces pm i))"
proof -
  have inv: "pm_inv pm" using pm_system.reachable_inv start reach by blast
  let ?cs = "sortSlice (piece_less below coin) (candidates ord ord' pm)"
  have mset: "mset ?cs = mset (candidates ord ord' pm)" by (rule perm)
  then have set: "set ?cs = {p. pieces pm (pi_Index p) = Some p \<and> eligible pm (pi_Index p)}"
    using set_candidates [OF inv cov] by (metis set_mset_mset)
  have "mset (map pi_Index ?cs) = mset (map pi_Index (candidates ord ord' pm))"
    using mset by simp
  then have dist: "distinct (map pi_Index ?cs)"
    using distinct_candidates [OF inv] by (metis mset_eq_imp_distinct_iff)
  have "pi_Index p = i" if "pieces pm i = Some p" for i p
    using pm_inv_piece [OF inv that] by (simp add: piece_ok_def)
  then have "pi_Index ` set ?cs = {i. eligible pm i}"
    unfolding set by (force simp: eligible_def downloadable_def)
  then have len: "length ?cs = card {i. eligible pm i}"
    using distinct_card [OF dist] by simp
  show ?thesis
  proof (intro exI conjI)
    show "GetNextPieces sortSlice below coin ord ord' n pm =
      Return (fold (mark PieceRequested) (map pi_Index (take (nat n) ?cs)) pm, take (nat n) ?cs)"
      using inv cov perm n by (intro GetNextPieces_eq) auto
    show "distinct (map pi_Index (take (nat n) ?cs))"
      using dist by (metis distinct_take take_map)
    show "\<forall>p \<in> set (take (nat n) ?cs). pieces pm (pi_Index p) = Some p \<and> eligible pm (pi_Index p)"
      using set by (auto dest!: in_set_takeD)
  qed (simp_all add: len min.commute pieces_fold_mark)
qed

text \<open>
  C20: Rarest first. When every draw of \<^verbatim>\<open>rand.Float32()\<close> falls below 0.8, so that the comparison
  is the priority order throughout, and \<^verbatim>\<open>sort.Slice\<close> orders the slice by that comparison, no
  piece that is left out is rarer than one that is returned.
\<close>

theorem GetNextPieces_rarest_first:
  assumes start: "NewPieceManager m hashes = Return pm0" and reach: "pm_step\<^sup>*\<^sup>* pm0 pm"
    and cov: "covers ord (pieces pm)" "covers ord' (pieces pm)"
    and perm: "\<And>less xs. mset (sortSlice less xs) = mset xs"
    and sorts: "\<And>xs. sorted_wrt (\<lambda>a b. \<not> pi_Priority b > pi_Priority a)
      (sortSlice (\<lambda>_ a b. pi_Priority a > pi_Priority b) xs)"
    and res: "GetNextPieces sortSlice (\<lambda>_. True) coin ord ord' n pm = Return (pm', ps)" and n: "0 \<le> n"
    and p: "p \<in> set ps" and q: "pieces pm i = Some q" "eligible pm i" "i \<notin> pi_Index ` set ps"
  shows "card (pi_Peers p) \<le> card (pi_Peers q)"
proof -
  have inv: "pm_inv pm" using pm_system.reachable_inv start reach by blast
  let ?less = "\<lambda>(_::nat) a b. pi_Priority a > pi_Priority b"
  have less: "piece_less (\<lambda>_. True) coin = ?less" by (simp add: piece_less_def fun_eq_iff)
  let ?cs = "sortSlice ?less (candidates ord ord' pm)"
  have ps: "ps = take (nat n) ?cs"
    using GetNextPieces_eq [where sortSlice = sortSlice, OF inv cov perm n refl] res by (simp add: less)
  have set: "set ?cs = {p. pieces pm (pi_Index p) = Some p \<and> eligible pm (pi_Index p)}"
    using set_candidates [OF inv cov] perm by (metis set_mset_mset)
  have qi: "pi_Index q = i" using pm_inv_piece [OF inv q(1)] by (simp add: piece_ok_def)
  with q have "q \<in> set ?cs" and "q \<notin> set ps" by (auto simp: set)
  then have "q \<in> set (drop (nat n) ?cs)"
    by (metis Un_iff append_take_drop_id ps set_append)
  moreover have "sorted_wrt (\<lambda>a b. \<not> pi_Priority b > pi_Priority a) (take (nat n) ?cs @ drop (nat n) ?cs)"
    using sorts by simp
  ultimately have le: "pi_Priority q \<le> pi_Priority p"
    using p ps by (auto simp: sorted_wrt_append not_less simp del: append_take_drop_id)
  have "p \<in> set ?cs" using p ps by (auto dest: in_set_takeD)
  then have "eligible pm (pi_Index p)" and "pieces pm (pi_Index p) = Some p" by (auto simp: set)
  then have "pi_Peers p \<noteq> {}" and "piece_ok (pi_Index p) p"
    using pm_inv_piece [OF inv] by (auto simp: eligible_def downloadable_def)
  moreover have "pi_Peers q \<noteq> {}" and "piece_ok i q"
    using q pm_inv_piece [OF inv] by (auto simp: eligible_def downloadable_def)
  ultimately show ?thesis using le by (simp add: piece_ok_def)
qed

subsection \<open>Completion, construction, disconnection\<close>

lemma IsComplete_iff:
  assumes "covers ord (pieces pm)"
  shows "IsComplete ord pm \<longleftrightarrow> (\<forall>i p. pieces pm i = Some p \<longrightarrow> pi_Status p = PieceVerified)"
  using assms by (fastforce simp: IsComplete_def list_all_iff covers_def split: option.splits)

text \<open>
  The constructor panics exactly when the metadata promises more pieces than it has hashes;
  otherwise the manager holds one missing piece with no peer for every index below the number
  of pieces, with the hash the metadata gives it, and it counts as complete only when there is
  no piece at all.
\<close>

theorem NewPieceManager_spec:
  "(NewPieceManager n hashes = Panic \<longleftrightarrow> int (length hashes) < n) \<and>
   (\<forall>pm ord. NewPieceManager n hashes = Return pm \<longrightarrow> covers ord (pieces pm) \<longrightarrow>
     dom (pieces pm) = {i. 0 \<le> i \<and> i < n} \<and>
     (\<forall>i p. pieces pm i = Some p \<longrightarrow>
        pi_Hash p = hashes ! nat i \<and> pi_Status p = PieceMissing \<and> pi_Peers p = {}) \<and>
     (IsComplete ord pm \<longleftrightarrow> n \<le> 0))"
proof (cases "int (length hashes) < n")
  case True
  then have "NewPieceManager n hashes = Panic"
    by (simp add: NewPieceManager_def init_pieces_Panic)
  with True show ?thesis by simp
next
  case False
  then have new: "NewPieceManager n hashes = Return
    \<lparr>pieces = (\<lambda>j. if 0 \<le> j \<and> j < n then Some (new_piece (nat j) (hashes ! nat j)) else None),
     numPieces = n\<rparr>" by (intro NewPieceManager_Return) simp
  have "(\<forall>i. 0 \<le> i \<longrightarrow> \<not> i < n) \<longleftrightarrow> n \<le> 0" by (metis linorder_not_less order_refl order_trans)
  with False show ?thesis
    by (auto simp: new IsComplete_iff new_piece_def dom_def split: if_splits)
qed

text \<open>
  \<^verbatim>\<open>RemovePeer\<close> takes the peer off every piece and puts every requested piece back to
  missing, also the pieces that were requested from other peers: the piece manager does not
  record whom a piece was requested from.
\<close>

theorem pm_RemovePeer_spec:
  assumes "covers ord (pieces pm)"
  shows "pieces (pm_RemovePeer ord addr pm) i =
    (case pieces pm i of
       None \<Rightarrow> None
     | Some p \<Rightarrow> Some (p\<lparr>pi_Peers := pi_Peers p - {addr},
         pi_Status := (if pi_Status p = PieceRequested then PieceMissing else pi_Status p),
         pi_Priority := 1000 - int (card (pi_Peers p - {addr}))\<rparr>))"
  by (simp add: pieces_pm_RemovePeer [OF assms] unpeer_piece_def Let_def split: option.splits)

text \<open>What no operation changes: the number of pieces and the hash of each piece.\<close>

lemma hash_fold:
  "(\<And>x pm. map_option pi_Hash (pieces (body x pm) i) = map_option pi_Hash (pieces pm i)) \<Longrightarrow>
     map_option pi_Hash (pieces (fold body xs pm) i) = map_option pi_Hash (pieces pm i)"
  by (induction xs arbitrary: pm) simp_all

lemma hash_ops:
  "map_option pi_Hash (pieces (update_piece addr j pm) i) = map_option pi_Hash (pieces pm i)"
  "map_option pi_Hash (pieces (remove_from_piece addr j pm) i) = map_option pi_Hash (pieces pm i)"
  "map_option pi_Hash (pieces (mark st j pm) i) = map_option pi_Hash (pieces pm i)"
  by (auto simp: pieces_update_piece remove_from_piece_def unpeer_piece_def Let_def option.map_comp comp_def
      split: option.splits)

lemma pm_step_keeps:
  "pm_step pm pm' \<Longrightarrow>
     numPieces pm' = numPieces pm \<and> map_option pi_Hash (pieces pm' i) = map_option pi_Hash (pieces pm i)"
  by (erule pm_stepE)
    (auto simp: UpdatePeerPieces_def pm_RemovePeer_def GetNextPieces_def MarkPieceStatus_def numPieces_fold
      hash_fold hash_ops Let_def simp del: pieces_mark split: outcome.splits dest!: mark_requested_eq)

lemma pm_steps_keep:
  "pm_step\<^sup>*\<^sup>* pm pm' \<Longrightarrow>
     numPieces pm' = numPieces pm \<and> map_option pi_Hash (pieces pm' i) = map_option pi_Hash (pieces pm i)"
  by (induction rule: rtranclp_induct) (simp, metis pm_step_keeps)

lemma NewPieceManager_pieces:
  assumes "NewPieceManager n hashes = Return pm"
  shows "numPieces pm = n" and "pieces pm i = (if 0 \<le> i \<and> i < n then Some (new_piece (nat i) (hashes ! nat i)) else None)"
proof -
  have "n \<le> int (length hashes)"
    using assms init_pieces_Panic [of hashes 0 "nat n" Map.empty]
    by (cases "length hashes < nat n") (auto simp: NewPieceManager_def)
  with assms show "numPieces pm = n"
    "pieces pm i = (if 0 \<le> i \<and> i < n then Some (new_piece (nat i) (hashes ! nat i)) else None)"
    by (auto simp: NewPieceManager_Return)
qed

text \<open>
  C21: The bookkeeping is consistent in every state a download reaches: the keys are the indices
  below the number of pieces the manager was made with, every piece knows its own index and keeps
  the hash it was given, and a piece that some peer has carries the priority 1000 minus the number
  of these peers, however peers come and go. A piece no peer has carries the priority 0 it was made
  with, or 1000 once a peer was removed.
\<close>

theorem pm_consistent:
  assumes "NewPieceManager n hashes = Return pm0" and "pm_step\<^sup>*\<^sup>* pm0 pm"
  shows "numPieces pm = n \<and> dom (pieces pm) = {i. 0 \<le> i \<and> i < n} \<and>
    (\<forall>i p. pieces pm i = Some p \<longrightarrow> pi_Index p = i \<and> pi_Hash p = hashes ! nat i \<and> finite (pi_Peers p) \<and>
      (pi_Peers p \<noteq> {} \<longrightarrow> pi_Priority p = 1000 - int (card (pi_Peers p))) \<and>
      (pi_Peers p = {} \<longrightarrow> pi_Priority p \<in> {0, 1000}))"
proof -
  have inv: "pm_inv pm" using pm_system.reachable_inv assms by blast
  have n: "numPieces pm = n" using pm_steps_keep [OF assms(2)] NewPieceManager_pieces [OF assms(1)] by simp
  have "pi_Hash p = hashes ! nat i" if "pieces pm i = Some p" for i p
    using pm_steps_keep [OF assms(2), of i] NewPieceManager_pieces(2) [OF assms(1), of i] that
    by (auto simp: new_piece_def split: if_splits)
  with inv n show ?thesis by (auto simp: pm_inv_def piece_ok_def)
qed

subsection \<open>A download with two pieces\<close>

definition example_pm0 :: PieceManager where
  "example_pm0 = \<lparr>pieces = [0 \<mapsto> new_piece 0 ''h0'', 1 \<mapsto> new_piece 1 ''h1''], numPieces = 2\<rparr>"

definition example_pm :: PieceManager where
  "example_pm = UpdatePeerPieces ''q'' [0] (UpdatePeerPieces ''p'' [0, 1] example_pm0)"

definition prio_sort :: sorter where
  "prio_sort cmp xs = sort_key (\<lambda>p. - pi_Priority p) xs"

lemma example_pm0_new: "NewPieceManager 2 [''h0'', ''h1''] = Return example_pm0"
proof -
  have "(\<lambda>j. if 0 \<le> j \<and> j < 2 then Some (new_piece (nat j) ([''h0'', ''h1''] ! nat j)) else None) =
      [0 \<mapsto> new_piece 0 ''h0'', 1 \<mapsto> new_piece 1 ''h1'']"
    by (rule ext) (auto simp: le_less split: if_splits)
  then show ?thesis by (simp add: NewPieceManager_Return example_pm0_def)
qed

lemma example_pm_reachable: "pm_step\<^sup>*\<^sup>* example_pm0 example_pm"
  unfolding example_pm_def
  by (rule rtranclp.rtrancl_into_rtrancl [OF r_into_rtranclp]) (rule pm_step.update)+

lemma example_pm_pieces:
  "pieces example_pm =
     [0 \<mapsto> (new_piece 0 ''h0'')\<lparr>pi_Peers := {''p'', ''q''}, pi_Priority := 998\<rparr>,
      1 \<mapsto> (new_piece 1 ''h1'')\<lparr>pi_Peers := {''p''}, pi_Priority := 999\<rparr>]"
  by (simp add: example_pm_def example_pm0_def UpdatePeerPieces_def update_piece_def new_piece_def
      Let_def fun_eq_iff insert_commute)

lemma example_pm_covers: "covers [0, 1] (pieces example_pm)"
  by (simp add: covers_def example_pm_pieces)

lemma mset_prio_sort: "mset (prio_sort cmp xs) = mset xs"
  by (simp add: prio_sort_def)

lemma sorted_prio_sort:
  "sorted_wrt (\<lambda>a b. \<not> pi_Priority b > pi_Priority a) (prio_sort cmp xs)"
proof -
  have "sorted (map (\<lambda>p. - pi_Priority p) (prio_sort cmp xs))" by (simp add: prio_sort_def)
  then show ?thesis by (simp add: sorted_map not_less)
qed

lemma example_next:
  "GetNextPieces prio_sort (\<lambda>_. True) (\<lambda>_. False) [0, 1] [0, 1] 1 example_pm =
     Return (mark PieceRequested 1 example_pm,
       [(new_piece 1 ''h1'')\<lparr>pi_Peers := {''p''}, pi_Priority := 999\<rparr>])"
  by (simp add: GetNextPieces_def candidates_def pieces_with_def range_keys_def example_pm_pieces
      prio_sort_def new_piece_def go_slice_def Let_def)

lemma example_eligible: "eligible example_pm 0" "eligible example_pm 1"
  by (simp_all add: eligible_def downloadable_def example_pm_pieces new_piece_def)

theorem GetNextPieces_spec_witness:
  "\<exists>pm' ps. GetNextPieces prio_sort (\<lambda>_. False) (\<lambda>_. True) [0, 1] [0, 1] 1 example_pm = Return (pm', ps) \<and>
     length ps = min 1 (card {i. eligible example_pm i}) \<and>
     (\<forall>p \<in> set ps. eligible example_pm (pi_Index p))"
proof -
  have "(0::int) \<le> 1" by simp
  from GetNextPieces_spec [where sortSlice = prio_sort and below = "\<lambda>_. False" and coin = "\<lambda>_. True",
      OF example_pm0_new example_pm_reachable example_pm_covers example_pm_covers mset_prio_sort this]
  show ?thesis by auto
qed

theorem GetNextPieces_rarest_first_witness:
  "card (pi_Peers ((new_piece 1 ''h1'')\<lparr>pi_Peers := {''p''}, pi_Priority := 999\<rparr>)) \<le>
   card (pi_Peers ((new_piece 0 ''h0'')\<lparr>pi_Peers := {''p'', ''q''}, pi_Priority := 998\<rparr>))"
proof -
  have q: "pieces example_pm 0 = Some ((new_piece 0 ''h0'')\<lparr>pi_Peers := {''p'', ''q''}, pi_Priority := 998\<rparr>)"
    by (simp add: example_pm_pieces)
  show ?thesis
    by (rule GetNextPieces_rarest_first [where sortSlice = prio_sort, OF example_pm0_new
          example_pm_reachable example_pm_covers example_pm_covers mset_prio_sort sorted_prio_sort
          example_next _ _ q example_eligible(1)])
      (simp_all add: new_piece_def)
qed

theorem NewPieceManager_spec_witness:
  "NewPieceManager 3 [''h0'', ''h1''] = Panic \<and>
   NewPieceManager 2 [''h0'', ''h1''] = Return example_pm0 \<and> \<not> IsComplete [0, 1] example_pm0"
proof -
  have "covers [0, 1] (pieces example_pm0)" by (simp add: covers_def example_pm0_def)
  then have "\<not> IsComplete [0, 1] example_pm0"
    using NewPieceManager_spec [of 2 "[''h0'', ''h1'']"] example_pm0_new by simp
  moreover have "NewPieceManager 3 [''h0'', ''h1''] = Panic"
    using NewPieceManager_spec [of 3 "[''h0'', ''h1'']"] by simp
  ultimately show ?thesis by (simp add: example_pm0_new)
qed

theorem pm_RemovePeer_spec_witness:
  "pieces (pm_RemovePeer [0, 1] ''q'' (mark PieceRequested 1 example_pm)) 1 =
     Some ((new_piece 1 ''h1'')\<lparr>pi_Peers := {''p''}, pi_Priority := 999\<rparr>)"
proof -
  have "covers [0, 1] (pieces (mark PieceRequested 1 example_pm))"
    by (auto simp: covers_def example_pm_pieces dom_def split: if_splits)
  from pm_RemovePeer_spec [OF this, of "''q''" 1] show ?thesis
    by (simp add: example_pm_pieces new_piece_def)
qed

theorem pm_consistent_witness:
  "pm_step\<^sup>*\<^sup>* example_pm0 example_pm \<and> numPieces example_pm = 2 \<and>
   (\<exists>p. pieces example_pm 0 = Some p \<and> pi_Hash p = ''h0'' \<and> pi_Priority p = 998)"
proof -
  let ?p = "(new_piece 0 ''h0'')\<lparr>pi_Peers := {''p'', ''q''}, pi_Priority := 998\<rparr>"
  have p: "pieces example_pm 0 = Some ?p" by (simp add: example_pm_pieces)
  note all = pm_consistent [OF example_pm0_new example_pm_reachable]
  from all p have "pi_Hash ?p = [''h0'', ''h1''] ! nat 0" "pi_Peers ?p \<noteq> {} \<longrightarrow> pi_Priority ?p = 1000 - int (card (pi_Peers ?p))"
    by blast+
  moreover have "numPieces example_pm = 2" using all by blast
  ultimately show ?thesis using p example_pm_reachable by simp
qed

end
