(* ===== verification/Wire.thy ===== *)
theory Wire
  imports Go_IO
begin

section \<open>Messages and framing (p2p/message.go, p2p/encoding.go, shared/types.go)\<close>

text \<open>
  The messages peers exchange, the sender's framing (\<^verbatim>\<open>TCPPeer.Send\<close>) and the receiver's
  \<^verbatim>\<open>DefaultDecoder\<close>. What arrives on a connection is a list of events: a segment of bytes the
  network delivers at once, or a failing read (a timeout, a reset); the end of the list is the
  end of the stream. What a write does is an argument: it maps the bytes handed to
  \<^verbatim>\<open>Conn.Write\<close> to the number written and the error.
\<close>

subsection \<open>Messages\<close>

record Metadata =
  md_FileID :: string
  md_NumChunks :: int
  md_ChunkSize :: int
  md_FileExtension :: string
  md_OriginalPath :: string
  md_ChunkHashes :: "string list"
  md_TotalHash :: string
  md_TotalSize :: int

record RPC =
  rpc_From :: string
  rpc_Payload :: bytes
  rpc_Stream :: bool

record MessageChunkRequest =
  rq_FileID :: string
  rq_Chunk :: int

record MessageChunkResponse =
  rs_FileID :: string
  rs_Chunk :: int
  rs_Data :: bytes

record MessageMetadataRequest =
  mq_FileID :: string

record MessageMetadataResponse =
  mr_Metadata :: Metadata

text \<open>The values an interface-typed payload can hold: the registered types, or another (by its type name).\<close>

datatype payload =
    ChunkRequest MessageChunkRequest
  | ChunkResponse MessageChunkResponse
  | MetadataRequest MessageMetadataRequest
  | MetadataResponse MessageMetadataResponse
  | OtherPayload string

record Message =
  msg_Type :: string
  msg_Payload :: payload

definition MessageTypeChunkRequest :: string where
  "MessageTypeChunkRequest = ''chunk_request''"

definition MessageTypeChunkResponse :: string where
  "MessageTypeChunkResponse = ''chunk_response''"

definition MessageTypeMetadataRequest :: string where
  "MessageTypeMetadataRequest = ''metadata_request''"

definition NewChunkRequestMessage :: "string \<Rightarrow> int \<Rightarrow> Message" where
  "NewChunkRequestMessage fileID chunk =
     \<lparr>msg_Type = MessageTypeChunkRequest,
      msg_Payload = ChunkRequest \<lparr>rq_FileID = fileID, rq_Chunk = chunk\<rparr>\<rparr>"

definition NewChunkResponseMessage :: "string \<Rightarrow> int \<Rightarrow> bytes \<Rightarrow> Message" where
  "NewChunkResponseMessage fileID chunk data =
     \<lparr>msg_Type = MessageTypeChunkResponse,
      msg_Payload = ChunkResponse \<lparr>rs_FileID = fileID, rs_Chunk = chunk, rs_Data = data\<rparr>\<rparr>"

subsection \<open>Big-endian lengths\<close>

definition PutUint32 :: "32 word \<Rightarrow> bytes" where
  "PutUint32 v = [ucast (drop_bit 24 v), ucast (drop_bit 16 v), ucast (drop_bit 8 v), ucast v]"

fun Uint32 :: "bytes \<Rightarrow> 32 word" where
  "Uint32 [b0, b1, b2, b3] =
     or (ucast b3) (or (push_bit 8 (ucast b2)) (or (push_bit 16 (ucast b1)) (push_bit 24 (ucast b0))))"
| "Uint32 _ = 0"

subsection \<open>Sending\<close>

type_synonym writer = "bytes \<Rightarrow> nat \<times> go_error option"

definition maxMessageSize :: nat where
  "maxMessageSize = 17 * 1024 * 1024"

definition frame :: "bytes \<Rightarrow> bytes" where
  "frame b = PutUint32 (of_nat (length b)) @ b"

text \<open>The bytes that reach the connection and the error \<^verbatim>\<open>Send\<close> returns.\<close>

definition Send :: "writer \<Rightarrow> bytes \<Rightarrow> bytes \<times> go_error option" where
  "Send wr b =
     (if length b = 0 then ([], None)
      else if length b > maxMessageSize then
        ([], Some (Errorf (''message too large: '' @ show_nat (length b) @ '' bytes'')))
      else
        let data = frame b; (n, err) = wr data
        in (take n data,
            case err of
              Some e \<Rightarrow> Some (Errorf (''failed to write: '' @ Error e))
            | None \<Rightarrow>
                if n \<noteq> length data then Some (Errorf (''incomplete write: wrote '' @ show_nat n @ '' of '' @
                show_nat (length data) @ '' bytes'')) else None))"

subsection \<open>Receiving\<close>

definition DefaultDecoder_Decode :: "conn \<Rightarrow> (go_error + bytes) \<times> conn" where
  "DefaultDecoder_Decode c =
     (case ReadFull 4 c of
        (Inl e, c1) \<Rightarrow> (Inl (Errorf (''failed to read message length: '' @ Error e)), c1)
      | (Inr lengthBuf, c1) \<Rightarrow>
          let len = unat (Uint32 lengthBuf)
          in if len = 0 then (Inr [], c1)
             else if len > maxMessageSize then
               (Inl (Errorf (''message too large: '' @ show_nat len @ '' bytes (max: '' @
                 show_nat maxMessageSize @ '')'')), c1)
             else
               (case ReadFull len c1 of
                  (Inl e, c2) \<Rightarrow> (Inl (Errorf (''failed to read message: '' @ Error e)), c2)
                | (Inr payload, c2) \<Rightarrow> (Inr payload, c2)))"

text \<open>Receiving \<open>n\<close> messages one after the other; the first failure ends it.\<close>

fun recv_many :: "(conn \<Rightarrow> (go_error + 'm) \<times> conn) \<Rightarrow> nat \<Rightarrow> conn \<Rightarrow> (go_error + 'm list) \<times> conn" where
  "recv_many recv 0 c = (Inr [], c)"
| "recv_many recv (Suc n) c =
     (case recv c of
        (Inl e, c1) \<Rightarrow> (Inl e, c1)
      | (Inr m, c1) \<Rightarrow>
          (case recv_many recv n c1 of
             (Inl e, c2) \<Rightarrow> (Inl e, c2)
           | (Inr ms, c2) \<Rightarrow> (Inr (m # ms), c2)))"

subsection \<open>The framing interface\<close>

text \<open>
  What the server relies on: a valid message that was put on the wire is the next one the
  receiver gets, however the network cuts the bytes into segments, and the receiver is left at
  the first byte after it. A whole conversation then arrives in order.
\<close>

locale framing =
  fixes put :: "'m \<Rightarrow> bytes"
    and recv :: "conn \<Rightarrow> (go_error + 'm) \<times> conn"
    and valid :: "'m \<Rightarrow> bool"
  assumes recv_put:
    "valid m \<Longrightarrow> segments c = Some (put m @ rest) \<Longrightarrow>
       \<exists>c'. recv c = (Inr m, c') \<and> segments c' = Some rest"
begin

lemma recv_many_put:
  "\<forall>m \<in> set ms. valid m \<Longrightarrow> segments c = Some (concat (map put ms) @ rest) \<Longrightarrow>
     \<exists>c'. recv_many recv (length ms) c = (Inr ms, c') \<and> segments c' = Some rest"
proof (induction ms arbitrary: c)
  case (Cons m ms)
  then obtain c1 where c1: "recv c = (Inr m, c1)" and "segments c1 = Some (concat (map put ms) @ rest)"
    using recv_put [of m c "concat (map put ms) @ rest"] by auto
  then obtain c2 where "recv_many recv (length ms) c1 = (Inr ms, c2)" and "segments c2 = Some rest"
    using Cons.IH Cons.prems(1) by auto
  with c1 show ?case by simp
qed simp

end

subsection \<open>Lemmas\<close>

lemma length_PutUint32 [simp]: "length (PutUint32 v) = 4"
  by (simp add: PutUint32_def)

lemma length_frame [simp]: "length (frame b) = length b + 4"
  by (simp add: frame_def)

lemma Uint32_PutUint32: "Uint32 (PutUint32 v) = v"
proof (rule bit_word_eqI)
  fix n
  assume "n < LENGTH(32)"
  then consider "n < 8" | "8 \<le> n" "n < 16" | "16 \<le> n" "n < 24" | "24 \<le> n" "n < 32"
    by force
  then show "bit (Uint32 (PutUint32 v)) n = bit v n"
    by cases (auto simp: PutUint32_def bit_simps)
qed

lemma Decode_frame:
  assumes "0 < length b" "length b \<le> maxMessageSize" and "segments c = Some (frame b @ rest)"
  shows "\<exists>c'. DefaultDecoder_Decode c = (Inr b, c') \<and> segments c' = Some rest"
proof -
  let ?len = "PutUint32 (of_nat (length b))"
  have small: "unat (of_nat (length b) :: 32 word) = length b"
    using assms(2) by (simp add: maxMessageSize_def unat_of_nat)
  have "segments c = Some (?len @ b @ rest)" using assms(3) by (simp add: frame_def)
  then obtain c1 where c1: "ReadFull 4 c = (Inr ?len, c1)" "segments c1 = Some (b @ rest)"
    using ReadFull_segments [of c ?len "b @ rest"] by auto
  then obtain c2 where c2: "ReadFull (length b) c1 = (Inr b, c2)" "segments c2 = Some rest"
    using ReadFull_segments [of c1 b rest] by auto
  with c1 assms(1,2) show ?thesis
    by (simp add: DefaultDecoder_Decode_def Uint32_PutUint32 small Let_def)
qed

lemma Decode_eof:
  "segments c = Some [] \<Longrightarrow>
     \<exists>c'. DefaultDecoder_Decode c = (Inl (Errorf ''failed to read message length: EOF''), c')"
  using ReadFull_eof [of c 4] by (auto simp: DefaultDecoder_Decode_def)

lemma Decode_cases:
  assumes "DefaultDecoder_Decode c = (r, c')"
  shows "(\<exists>msg. r = Inl (Errorf msg)) \<or>
    (\<exists>c1 lenbuf. ReadFull 4 c = (Inr lenbuf, c1) \<and>
      (r = Inr [] \<and> c' = c1 \<or>
       (\<exists>b. r = Inr b \<and> ReadFull (unat (Uint32 lenbuf)) c1 = (Inr b, c') \<and>
         unat (Uint32 lenbuf) \<le> maxMessageSize)))"
proof (cases "ReadFull 4 c")
  case (Pair r1 c1)
  show ?thesis
  proof (cases r1)
    case (Inl e)
    with assms Pair show ?thesis by (auto simp: DefaultDecoder_Decode_def)
  next
    case (Inr lenbuf)
    obtain r2 c2 where "ReadFull (unat (Uint32 lenbuf)) c1 = (r2, c2)" by fastforce
    with assms Pair Inr show ?thesis
      by (cases r2) (auto simp: DefaultDecoder_Decode_def Let_def split: if_splits)
  qed
qed

lemma Decode_error: "DefaultDecoder_Decode c = (Inl e, c') \<Longrightarrow> \<exists>msg. e = Errorf msg"
  using Decode_cases by blast

lemma Decode_length: "DefaultDecoder_Decode c = (Inr b, c') \<Longrightarrow> length b \<le> 17 * 1024 * 1024"
  by (drule Decode_cases) (auto simp: maxMessageSize_def dest: ReadFull_length)

lemma Decode_size: "DefaultDecoder_Decode c = (Inr b, c') \<Longrightarrow> conn_size c' < conn_size c"
  by (drule Decode_cases) (auto dest!: ReadFull_size)

interpretation wire: framing frame DefaultDecoder_Decode
  "\<lambda>b. 0 < length b \<and> length b \<le> maxMessageSize"
  by unfold_locales (use Decode_frame in blast)

lemma Send_ok:
  assumes "0 < length b" "length b \<le> maxMessageSize" and "wr (frame b) = (length (frame b), None)"
  shows "Send wr b = (frame b, None)"
  using assms by (simp add: Send_def Let_def)

lemma Send_success:
  assumes "Send wr b = (out, None)"
  shows "length b \<le> maxMessageSize \<and> out = (if b = [] then [] else frame b)"
  using assms
  by (auto simp: Send_def Let_def maxMessageSize_def split: if_splits prod.splits option.splits)

text \<open>
  C8: Framing round trip. If each of a sequence of messages is non-empty and \<^verbatim>\<open>Send\<close> reports
  success for it, then the receiving \<^verbatim>\<open>DefaultDecoder\<close> yields exactly these messages, in order,
  however the network cuts the bytes into segments, and stops right after them.
\<close>

theorem Send_Decode_roundtrip:
  assumes "\<And>m. m \<in> set ms \<Longrightarrow> m \<noteq> [] \<and> Send (wr m) m = (out m, None)"
    and "segments c = Some (concat (map out ms) @ rest)"
  shows "\<exists>c'. recv_many DefaultDecoder_Decode (length ms) c = (Inr ms, c') \<and> segments c' = Some rest"
proof -
  have "out m = frame m \<and> 0 < length m \<and> length m \<le> maxMessageSize" if "m \<in> set ms" for m
    using assms(1) [OF that] Send_success [of "wr m" m "out m"] by auto
  then have "map out ms = map frame ms" and "\<forall>m \<in> set ms. 0 < length m \<and> length m \<le> maxMessageSize"
    by auto
  with assms(2) show ?thesis using wire.recv_many_put by simp
qed

text \<open>
  What \<^verbatim>\<open>Send\<close> does in every case: an empty message (the heartbeat) writes nothing and
  succeeds; a message over 17 MiB is refused without writing; otherwise one write of the length
  prefix and the message is attempted, and success is reported only when all of it was written.
\<close>

theorem Send_cases:
  "Send wr [] = ([], None) \<and>
   (length b > 17 * 1024 * 1024 \<longrightarrow> (\<exists>e. Send wr b = ([], Some e))) \<and>
   (b \<noteq> [] \<and> length b \<le> 17 * 1024 * 1024 \<longrightarrow>
      (\<exists>n err. wr (PutUint32 (of_nat (length b)) @ b) = (n, err) \<and>
        fst (Send wr b) = take n (PutUint32 (of_nat (length b)) @ b) \<and>
        (snd (Send wr b) = None \<longleftrightarrow> err = None \<and> n = length b + 4)))"
proof -
  obtain n err where w: "wr (frame b) = (n, err)" by fastforce
  then have "b \<noteq> [] \<and> length b \<le> maxMessageSize \<Longrightarrow>
      fst (Send wr b) = take n (frame b) \<and> (snd (Send wr b) = None \<longleftrightarrow> err = None \<and> n = length b + 4)"
    by (auto simp: Send_def Let_def split: option.splits)
  with w show ?thesis by (auto simp: Send_def maxMessageSize_def frame_def)
qed

text \<open>
  The decoder never hands its caller an \<^verbatim>\<open>io.EOF\<close> or a timeout: every failure is wrapped by
  \<^verbatim>\<open>fmt.Errorf\<close> with \<^verbatim>\<open>%v\<close>, which keeps the text and loses the error's identity, and an accepted
  message is never longer than 17 MiB.
\<close>

theorem Decode_result:
  "DefaultDecoder_Decode c = (r, c') \<Longrightarrow>
     (case r of
        Inl e \<Rightarrow> e \<noteq> EOF \<and> \<not> is_timeout e \<and> (\<exists>msg. e = Errorf msg)
      | Inr b \<Rightarrow> length b \<le> 17 * 1024 * 1024)"
  by (auto split: sum.splits dest: Decode_error Decode_length)

subsection \<open>Examples\<close>

lemma frame_examples: "frame [7, 8] = [0, 0, 0, 2, 7, 8]" "frame [9] = [0, 0, 0, 1, 9]"
  by (simp_all add: frame_def PutUint32_def)

theorem Send_Decode_roundtrip_witness:
  "\<exists>c'. recv_many DefaultDecoder_Decode 2 [Data [0, 0, 0], Data [2, 7, 8, 0, 0], Data [0, 1, 9]] =
      (Inr [[7, 8], [9]], c') \<and> segments c' = Some []"
proof -
  let ?c = "[Data [0, 0, 0], Data [2, 7, 8, 0, 0], Data [0, 1, 9]]"
  have s: "m \<noteq> [] \<and> Send (\<lambda>d. (length d, None)) m = (frame m, None)"
    if "m \<in> set [[7, 8], [9 :: byte]]" for m
    using that by (auto intro!: Send_ok simp: maxMessageSize_def)
  have "segments ?c = Some (concat (map frame [[7, 8], [9]]) @ [])"
    by (simp add: frame_examples)
  from Send_Decode_roundtrip [where wr = "\<lambda>_ d. (length d, None)", OF s this]
  show ?thesis by (simp add: numeral_2_eq_2)
qed

theorem Send_cases_witness:
  "(\<exists>n err. (\<lambda>d. (3, None)) (PutUint32 (of_nat (length [7, 8 :: byte])) @ [7, 8]) = (n, err) \<and>
      fst (Send (\<lambda>d. (3, None)) [7, 8]) = take n (PutUint32 (of_nat (length [7, 8 :: byte])) @ [7, 8]) \<and>
      (snd (Send (\<lambda>d. (3, None)) [7, 8]) = None \<longleftrightarrow> err = None \<and> n = length [7, 8 :: byte] + 4))"
  using Send_cases [of "\<lambda>d. (3, None)" "[7, 8]"] by simp

theorem Decode_result_witness:
  "DefaultDecoder_Decode [Data [0, 0], Fail (NetError True ''i/o timeout'')] =
     (Inl (Errorf ''failed to read message length: i/o timeout''), []) \<and>
   \<not> is_timeout (Errorf ''failed to read message length: i/o timeout'')"
proof -
  have d: "DefaultDecoder_Decode [Data [0, 0], Fail (NetError True ''i/o timeout'')] =
     (Inl (Errorf ''failed to read message length: i/o timeout''), [])"
    by (simp add: DefaultDecoder_Decode_def eval_nat_numeral)
  from Decode_result [OF d] d show ?thesis by simp
qed

end
