(* ===== verification/Transport.thy ===== *)
theory Transport
  imports Wire Go_Net
begin

section \<open>The TCP transport and UDP hole punching (p2p/tcp\_transport.go, p2p/udp\_hole.go)\<close>

text \<open>
  The loops of the transport's goroutines, each as a function of what its environment does: the
  events a connection delivers, the results of accepting, dialling and writing, and whether the
  receiver of a channel keeps up. Log output, socket options and sleeping are left out; the
  delays the code computes are modelled where it computes them.
\<close>

subsection \<open>Peers\<close>

text \<open>A peer is its connection, named by the remote address; \<^verbatim>\<open>wg\<close> is the wait group's counter.\<close>

record TCPPeer =
  tp_Conn :: string
  outbound :: bool
  wg :: int

definition NewTCPPeer :: "string \<Rightarrow> bool \<Rightarrow> TCPPeer" where
  "NewTCPPeer conn out = \<lparr>tp_Conn = conn, outbound = out, wg = 0\<rparr>"

text \<open>\<^verbatim>\<open>WaitGroup.Done\<close> panics when the counter drops below zero.\<close>

definition CloseStream :: "TCPPeer \<Rightarrow> TCPPeer outcome" where
  "CloseStream p = (if wg p - 1 < 0 then Panic else Return (p\<lparr>wg := wg p - 1\<rparr>))"

subsection \<open>Addresses\<close>

definition NormalizeAddress :: "string \<Rightarrow> string" where
  "NormalizeAddress addr =
     (if HasPrefix addr ''[::1]:'' then
        (case LastIndexChar (CHR '':'') addr of
           Some portIndex \<Rightarrow>
             if portIndex > 0 then ''localhost:'' @ drop (portIndex + 1) addr else addr
         | None \<Rightarrow> addr)
      else addr)"

definition getPort :: "string \<Rightarrow> int" where
  "getPort listenAddr =
     (let parts = Split (CHR '':'') listenAddr
      in if length parts \<noteq> 2 then 0 else fst (Atoi (parts ! 1)))"

subsection \<open>Reading a connection\<close>

datatype loop_end = ClosedByPeer | TooManyTimeouts | DecodeFailed go_error

text \<open>
  The message loop of \<^verbatim>\<open>handleConn\<close> for the decoder the server configures. \<open>full k\<close> says that
  the RPC channel stayed full for a second when the \<open>k\<close>-th message was offered to it.
\<close>

function conn_loop :: "(nat \<Rightarrow> bool) \<Rightarrow> string \<Rightarrow> nat \<Rightarrow> nat \<Rightarrow> conn \<Rightarrow> RPC list \<times> loop_end" where
  "conn_loop full frm k retries c =
     (case DefaultDecoder_Decode c of
        (Inl err, c') \<Rightarrow>
          if err = EOF \<or> StrContains (Error err) ''use of closed network connection''
          then ([], ClosedByPeer)
          else if is_timeout err then
            (if retries + 1 > 3 then ([], TooManyTimeouts)
             else conn_loop full frm k (retries + 1) c')
          else ([], DecodeFailed err)
      | (Inr payload, c') \<Rightarrow>
          (case conn_loop full frm (k + 1) 0 c' of
             (rpcs, e) \<Rightarrow>
               (if full k then rpcs
                else \<lparr>rpc_From = frm, rpc_Payload = payload, rpc_Stream = False\<rparr> # rpcs, e)))"
  by pat_completeness auto
termination
  by (relation "measure (\<lambda>(full, frm, k, retries, c). conn_size c)")
    (auto dest!: Decode_error [OF sym] Decode_size [OF sym])

declare conn_loop.simps [simp del]

text \<open>
  \<^verbatim>\<open>handleConn\<close>: the handshake, the \<^verbatim>\<open>OnPeer\<close> callback (which may change the state \<open>'s\<close> of its
  owner), then the message loop. \<open>None\<close> as end means that the loop was never entered.
\<close>

definition NOPHandshakeFunc :: "string \<Rightarrow> go_error option" where
  "NOPHandshakeFunc peer = None"

definition handleConn ::
  "(string \<Rightarrow> go_error option) \<Rightarrow> (string \<Rightarrow> 's \<Rightarrow> 's \<times> go_error option) option \<Rightarrow> (nat \<Rightarrow> bool) \<Rightarrow>
   string \<Rightarrow> 's \<Rightarrow> conn \<Rightarrow> 's \<times> RPC list \<times> loop_end option" where
  "handleConn handshake onPeer full remoteAddr st c =
     (case handshake remoteAddr of
        Some e \<Rightarrow> (st, [], None)
      | None \<Rightarrow>
          let normalizedAddr = NormalizeAddress remoteAddr;
              run = (\<lambda>st. case conn_loop full normalizedAddr 0 0 c of (rpcs, e) \<Rightarrow> (st, rpcs, Some e))
          in case onPeer of
               None \<Rightarrow> run st
             | Some f \<Rightarrow>
                 (case f remoteAddr st of
                    (st', Some e) \<Rightarrow> (st', [], None)
                  | (st', None) \<Rightarrow> run st'))"

text \<open>
  The heartbeat goroutine over \<open>n\<close> ticks: the bytes it writes and whether it closes the
  connection.
\<close>

fun heartbeat_ticks :: "writer \<Rightarrow> nat \<Rightarrow> nat \<Rightarrow> bytes \<times> bool" where
  "heartbeat_ticks wr 0 failures = ([], False)"
| "heartbeat_ticks wr (Suc n) failures =
     (case Send wr [] of
        (out, Some e) \<Rightarrow>
          if failures + 1 > 3 then (out, True)
          else (case heartbeat_ticks wr n (failures + 1) of (out', closed) \<Rightarrow> (out @ out', closed))
      | (out, None) \<Rightarrow>
          (case heartbeat_ticks wr n 0 of (out', closed) \<Rightarrow> (out @ out', closed)))"

subsection \<open>Accepting and listening\<close>

fun startAcceptLoop :: "(go_error + string) list \<Rightarrow> string list" where
  "startAcceptLoop [] = []"
| "startAcceptLoop (Inl e # rs) =
     (if StrContains (Error e) ''use of closed network connection'' then []
      else startAcceptLoop rs)"
| "startAcceptLoop (Inr addr # rs) = addr # startAcceptLoop rs"

record TCPTransport =
  ListenAddr :: string
  listener :: bool
  udpConn :: bool
  rpcch :: "RPC list"
  connectedCh :: "string list"

definition NewTCPTransport :: "string \<Rightarrow> TCPTransport" where
  "NewTCPTransport listenAddr =
     \<lparr>ListenAddr = listenAddr, listener = False, udpConn = False, rpcch = [], connectedCh = []\<rparr>"

definition Addr :: "TCPTransport \<Rightarrow> string" where
  "Addr t = ListenAddr t"

text \<open>
  \<^verbatim>\<open>Consume\<close> hands out the channel, a queue here; \<^verbatim>\<open>Close\<close> closes the listener, a nil one panics.
\<close>

definition Consume :: "TCPTransport \<Rightarrow> RPC list" where
  "Consume t = rpcch t"

definition Close :: "(string \<Rightarrow> go_error option) \<Rightarrow> TCPTransport \<Rightarrow> (TCPTransport \<times> go_error option) outcome" where
  "Close closeTCP t =
     (if listener t then Return (t\<lparr>listener := False\<rparr>, closeTCP (ListenAddr t)) else Panic)"

definition setupUDPListener :: "(int \<Rightarrow> go_error option) \<Rightarrow> TCPTransport \<Rightarrow> TCPTransport \<times> go_error option" where
  "setupUDPListener listenUDP t =
     (case listenUDP (getPort (ListenAddr t)) of
        Some e \<Rightarrow> (t\<lparr>udpConn := False\<rparr>, Some (Errorf (''UDP listen failed: '' @ Error e)))
      | None \<Rightarrow> (t\<lparr>udpConn := True\<rparr>, None))"

definition ListenAndAccept ::
  "(string \<Rightarrow> go_error option) \<Rightarrow> (int \<Rightarrow> go_error option) \<Rightarrow> TCPTransport \<Rightarrow> TCPTransport \<times> go_error option" where
  "ListenAndAccept listenTCP listenUDP t =
     (case listenTCP (ListenAddr t) of
        Some e \<Rightarrow> (t\<lparr>listener := False\<rparr>, Some e)
      | None \<Rightarrow>
          (case setupUDPListener listenUDP (t\<lparr>listener := True\<rparr>) of
             (t', Some e) \<Rightarrow> (t'\<lparr>listener := False\<rparr>, Some e)
           | (t', None) \<Rightarrow> (t', None)))"

subsection \<open>Hole punching\<close>

datatype udp_action = SendUDP string int string | DialTCP string

text \<open>
  One datagram: \<open>remoteIP\<close> is the sender's address, \<open>sent\<close> whether writing the acknowledgement
  succeeds. \<^verbatim>\<open>connectedCh\<close> has room for one element.
\<close>

definition handleUDPMessage ::
  "bool \<Rightarrow> string \<Rightarrow> string \<Rightarrow> TCPTransport \<Rightarrow> TCPTransport \<times> udp_action list" where
  "handleUDPMessage sent remoteIP message t =
     (let parts = Split (CHR '':'') message
      in if length parts \<noteq> 2 then (t, [])
         else
           let messageType = parts ! 0; tcpAddr = parts ! 1
           in if messageType = ''PUNCH'' then
                (case SplitHostPort tcpAddr of
                   Inl e \<Rightarrow> (t, [])
                 | Inr (_, punchPortStr) \<Rightarrow>
                     (case Atoi punchPortStr of
                        (punchPort, True) \<Rightarrow> (t, [])
                      | (punchPort, False) \<Rightarrow>
                          let ack = SendUDP remoteIP punchPort (''ACK:'' @ ListenAddr t)
                          in if sent then (t, [ack, DialTCP tcpAddr]) else (t, [ack])))
              else if messageType = ''ACK'' then
                (if connectedCh t = [] then (t\<lparr>connectedCh := [tcpAddr]\<rparr>, []) else (t, []))
              else (t, []))"

text \<open>The read loop: a read error is skipped.\<close>

fun handleUDPMessages ::
  "(go_error + bool \<times> string \<times> string) list \<Rightarrow> TCPTransport \<Rightarrow> TCPTransport \<times> udp_action list" where
  "handleUDPMessages [] t = (t, [])"
| "handleUDPMessages (Inl e # rs) t = handleUDPMessages rs t"
| "handleUDPMessages (Inr (sent, ip, msg) # rs) t =
     (case handleUDPMessage sent ip msg t of
        (t1, acts) \<Rightarrow> (case handleUDPMessages rs t1 of (t2, acts') \<Rightarrow> (t2, acts @ acts')))"

subsection \<open>Dialling\<close>

text \<open>
  The goroutine for one target address up to its TCP connection: an address error, or the punch
  messages it sends, with the delay in milliseconds after each.
\<close>

definition punch_backoff :: "nat list" where
  "punch_backoff = map (\<lambda>i. 100 * 2 ^ i) [0..<5]"

type_synonym punch = "bytes option \<times> int \<times> string \<times> nat"

definition dial_target :: "string \<Rightarrow> string \<Rightarrow> go_error + punch list" where
  "dial_target listenAddr targetAddr =
     (case SplitHostPort targetAddr of
        Inl e \<Rightarrow> Inl (Errorf (''invalid address '' @ targetAddr @ '': '' @ AddrError e targetAddr))
      | Inr (host, portStr) \<Rightarrow>
          (case Atoi portStr of
             (_, True) \<Rightarrow> Inl (Errorf (''invalid port in address '' @ targetAddr @ '': '' @ NumError portStr))
           | (port, False) \<Rightarrow>
               Inr (map (\<lambda>d. (ParseIP host, port, ''PUNCH:'' @ listenAddr, d)) punch_backoff)))"

text \<open>
  A call of \<^verbatim>\<open>Dial\<close> with its goroutines: the targets whose goroutines have not finished, the channels
  \<^verbatim>\<open>errCh\<close> (with room for every target), \<^verbatim>\<open>doneCh\<close> (closed or not) and \<^verbatim>\<open>connectedCh\<close>, the punch
  messages sent, the connections handed to \<^verbatim>\<open>handleConn\<close>, and where the caller is. \<open>ds_acked\<close> records
  that a hole-punching notification was waiting or arrived. Once a goroutine panics, the process has
  ended. Other calls of \<^verbatim>\<open>Dial\<close> that wait for \<^verbatim>\<open>connectedCh\<close> at the same time, and could take the
  notification, are left out.
\<close>

datatype dial_main = Selecting | DialReturned "go_error option"

record dial_state =
  ds_pending :: "string list"
  ds_errCh :: "go_error list"
  ds_doneCh :: bool
  ds_connectedCh :: "string list"
  ds_punches :: "punch list"
  ds_conns :: "string list"
  ds_acked :: bool
  ds_main :: dial_main
  ds_panicked :: bool

definition dial_init :: "string list \<Rightarrow> string list \<Rightarrow> dial_state" where
  "dial_init addrs ch =
     \<lparr>ds_pending = addrs, ds_errCh = [], ds_doneCh = False, ds_connectedCh = ch, ds_punches = [],
      ds_conns = [], ds_acked = (ch \<noteq> []), ds_main = Selecting, ds_panicked = False\<rparr>"

definition Dial_start ::
  "(int \<Rightarrow> go_error option) \<Rightarrow> string \<Rightarrow> TCPTransport \<Rightarrow> TCPTransport \<times> (go_error + dial_state)" where
  "Dial_start listenUDP addr t =
     (case (if udpConn t then (t, None) else setupUDPListener listenUDP t) of
        (t1, Some e) \<Rightarrow> (t1, Inl (Errorf (''UDP setup failed: '' @ Error e)))
      | (t1, None) \<Rightarrow> (t1, Inr (dial_init (Split (CHR ''|'') addr) (connectedCh t1))))"

definition dial_timeout :: go_error where
  "dial_timeout = Errorf ''connection timeout''"

text \<open>
  The goroutines go on after the caller has returned. The caller's \<^verbatim>\<open>select\<close> takes any channel that is
  ready. Its timer is the only case left to it when no channel has become ready within 20 s; by then
  every goroutine has finished (3.1 s of back-off and at most 5 s of dialling).
\<close>

inductive dial_step :: "string \<Rightarrow> dial_state \<Rightarrow> dial_state \<Rightarrow> bool" for la :: string where
  bad_address: "\<not> ds_panicked d \<Longrightarrow> a \<in> set (ds_pending d) \<Longrightarrow> dial_target la a = Inl e \<Longrightarrow>
    dial_step la d (d\<lparr>ds_pending := remove1 a (ds_pending d), ds_errCh := ds_errCh d @ [e]\<rparr>)"
| tcp_failed: "\<not> ds_panicked d \<Longrightarrow> a \<in> set (ds_pending d) \<Longrightarrow> dial_target la a = Inr ps \<Longrightarrow>
    dial_step la d (d\<lparr>ds_pending := remove1 a (ds_pending d), ds_punches := ds_punches d @ ps\<rparr>)"
| tcp_connected: "\<not> ds_panicked d \<Longrightarrow> a \<in> set (ds_pending d) \<Longrightarrow> dial_target la a = Inr ps \<Longrightarrow>
    dial_step la d (d\<lparr>ds_pending := remove1 a (ds_pending d), ds_punches := ds_punches d @ ps,
      ds_conns := ds_conns d @ [a], ds_doneCh := True, ds_panicked := ds_doneCh d\<rparr>)"
| ack: "\<not> ds_panicked d \<Longrightarrow> ds_connectedCh d = [] \<Longrightarrow>
    dial_step la d (d\<lparr>ds_connectedCh := [a], ds_acked := True\<rparr>)"
| select_done: "\<not> ds_panicked d \<Longrightarrow> ds_main d = Selecting \<Longrightarrow> ds_doneCh d \<Longrightarrow>
    dial_step la d (d\<lparr>ds_main := DialReturned None\<rparr>)"
| select_connected: "\<not> ds_panicked d \<Longrightarrow> ds_main d = Selecting \<Longrightarrow> ds_connectedCh d = a # ch \<Longrightarrow>
    dial_step la d (d\<lparr>ds_connectedCh := ch, ds_main := DialReturned None\<rparr>)"
| select_err: "\<not> ds_panicked d \<Longrightarrow> ds_main d = Selecting \<Longrightarrow> ds_errCh d = e # es \<Longrightarrow>
    dial_step la d (d\<lparr>ds_errCh := es, ds_main := DialReturned (Some e)\<rparr>)"
| select_timeout: "\<not> ds_panicked d \<Longrightarrow> ds_main d = Selecting \<Longrightarrow> ds_pending d = [] \<Longrightarrow>
    \<not> ds_doneCh d \<Longrightarrow> ds_connectedCh d = [] \<Longrightarrow> ds_errCh d = [] \<Longrightarrow>
    dial_step la d (d\<lparr>ds_main := DialReturned (Some dial_timeout)\<rparr>)"

inductive_cases dial_stepE: "dial_step la d d'"

subsection \<open>Properties\<close>

lemma conn_loop_error:
  "DefaultDecoder_Decode c = (Inl e, c') \<Longrightarrow>
     conn_loop full frm k retries c =
       ([], if StrContains (Error e) ''use of closed network connection'' then ClosedByPeer
            else DecodeFailed e)"
  by (subst conn_loop.simps) (auto dest: Decode_error)

lemma conn_loop_message:
  "DefaultDecoder_Decode c = (Inr b, c') \<Longrightarrow>
     conn_loop full frm k retries c =
       (case conn_loop full frm (Suc k) 0 c' of
          (rpcs, e) \<Rightarrow>
            (if full k then rpcs
             else \<lparr>rpc_From = frm, rpc_Payload = b, rpc_Stream = False\<rparr> # rpcs, e))"
  by (subst conn_loop.simps) simp

text \<open>
  C26: On a connection that delivers a sequence of framed messages (each non-empty and within the
  size limit), the message loop offers them to the RPC channel one by one, in order and stamped with
  the normalized address of the peer. It forwards exactly those for which the channel has room within
  a second; a message that finds the channel full is dropped and the loop goes on with the next. The
  end of the stream then ends the loop, as a failed decode and not as a connection closed by the peer.
\<close>

theorem conn_loop_delivers:
  assumes "\<And>m. m \<in> set ms \<Longrightarrow> m \<noteq> [] \<and> length m \<le> maxMessageSize"
    and "segments c = Some (concat (map frame ms))"
  shows "conn_loop full frm k retries c =
    (map (\<lambda>(j, m). \<lparr>rpc_From = frm, rpc_Payload = m, rpc_Stream = False\<rparr>)
       (filter (\<lambda>(j, m). \<not> full j) (enumerate k ms)),
     DecodeFailed (Errorf ''failed to read message length: EOF''))"
  using assms
proof (induction ms arbitrary: c k retries)
  case Nil
  then obtain c' where
    "DefaultDecoder_Decode c = (Inl (Errorf ''failed to read message length: EOF''), c')"
    using Decode_eof by auto
  then show ?case by (simp add: conn_loop_error HasPrefix_def)
next
  case (Cons m ms)
  then obtain c1 where d: "DefaultDecoder_Decode c = (Inr m, c1)" "segments c1 = Some (concat (map frame ms))"
    using wire.recv_put [of m c "concat (map frame ms)"] by auto
  with Cons.IH [of c1 "Suc k" 0] Cons.prems(1) show ?case
    by (auto simp: conn_loop_message)
qed

text \<open>
  C35: The retry branch of the message loop is dead: whatever the connection delivers and however
  often it has timed out before, the first failing decode, a read timeout included, ends the
  loop, and it never ends for too many timeouts.
\<close>

theorem conn_loop_never_retries:
  "(DefaultDecoder_Decode c = (Inl e, c') \<longrightarrow>
      conn_loop full frm k retries c =
        ([], if StrContains (Error e) ''use of closed network connection'' then ClosedByPeer
             else DecodeFailed e)) \<and>
   snd (conn_loop full frm k retries c) \<noteq> TooManyTimeouts"
proof (intro conjI impI)
  show "snd (conn_loop full frm k retries c) \<noteq> TooManyTimeouts"
  proof (induction full frm k retries c rule: conn_loop.induct)
    case (1 full frm k retries c)
    obtain r c' where d: "DefaultDecoder_Decode c = (r, c')" by fastforce
    show ?case
    proof (cases r)
      case (Inl e)
      with d show ?thesis by (simp add: conn_loop_error)
    next
      case (Inr b)
      with d "1.IH"(2) [of r c' b] show ?thesis
        by (auto simp: conn_loop_message split: prod.splits)
    qed
  qed
qed (rule conn_loop_error)

text \<open>
  The heartbeat does nothing: over any number of ticks it writes no byte and never closes
  the connection, even when every write to the connection fails.
\<close>

theorem heartbeat_is_silent: "heartbeat_ticks wr n failures = ([], False)"
  by (induction n arbitrary: failures) (simp_all add: Send_def)

text \<open>
  C40: Hole punching never answers: no datagram whatsoever, in particular no punch message of a
  dialling peer, makes the handler send an acknowledgement or dial back, since a message of two
  colon-separated parts leaves an address without a port. A datagram can only fill
  \<^verbatim>\<open>connectedCh\<close>, with an address without a colon.
\<close>

theorem handleUDPMessages_never_acknowledges:
  "snd (handleUDPMessages rs t) = [] \<and>
   (connectedCh (fst (handleUDPMessages rs t)) = connectedCh t \<or>
    (\<exists>a. connectedCh (fst (handleUDPMessages rs t)) = [a] \<and> CHR '':'' \<notin> set a))"
proof -
  have one: "snd (handleUDPMessage sent ip msg t) = [] \<and>
      (connectedCh (fst (handleUDPMessage sent ip msg t)) = connectedCh t \<or>
       (\<exists>a. connectedCh (fst (handleUDPMessage sent ip msg t)) = [a] \<and> CHR '':'' \<notin> set a))"
    for sent ip msg t
  proof (cases "length (Split (CHR '':'') msg) = 2")
    case True
    then have "CHR '':'' \<notin> set (Split (CHR '':'') msg ! 1)"
      by (intro Split_no_sep [of _ _ msg] nth_mem) simp
    then show ?thesis
      by (simp add: handleUDPMessage_def Let_def SplitHostPort_no_colon)
  qed (simp add: handleUDPMessage_def)
  show ?thesis
  proof (induction rs t rule: handleUDPMessages.induct)
    case (3 sent ip msg rs t)
    obtain t1 acts where s: "handleUDPMessage sent ip msg t = (t1, acts)" by fastforce
    obtain t2 acts2 where "handleUDPMessages rs t1 = (t2, acts2)" by fastforce
    with "3.IH" [OF s [symmetric]] one [of sent ip msg t] s show ?case by auto
  qed auto
qed

text \<open>
  The invariant of a dial: each close of \<^verbatim>\<open>doneCh\<close> belongs to a connection, the second one panics;
  what is in \<^verbatim>\<open>errCh\<close> are address errors; and what the caller returned has its reason.
\<close>

definition dial_inv :: "string \<Rightarrow> string list \<Rightarrow> dial_state \<Rightarrow> bool" where
  "dial_inv la addrs d \<longleftrightarrow>
     set (ds_pending d) \<subseteq> set addrs \<and> set (ds_conns d) \<subseteq> set addrs \<and> length (ds_conns d) \<le> 2 \<and>
     (ds_doneCh d \<longleftrightarrow> ds_conns d \<noteq> []) \<and> (ds_panicked d \<longleftrightarrow> length (ds_conns d) = 2) \<and>
     (ds_connectedCh d \<noteq> [] \<longrightarrow> ds_acked d) \<and>
     (\<forall>e \<in> set (ds_errCh d). \<exists>a \<in> set addrs. dial_target la a = Inl e) \<and>
     (case ds_main d of
        Selecting \<Rightarrow> True
      | DialReturned None \<Rightarrow> ds_conns d \<noteq> [] \<or> ds_acked d
      | DialReturned (Some e) \<Rightarrow>
          (\<exists>a \<in> set addrs. dial_target la a = Inl e) \<or> e = dial_timeout \<and> ds_pending d = [] \<and> ds_conns d = [])"

lemma dial_inv_goroutine:
  assumes "dial_inv la addrs d" and "\<not> ds_panicked d" and "a \<in> set (ds_pending d)"
  shows "dial_inv la addrs (d\<lparr>ds_pending := remove1 a (ds_pending d), ds_punches := ps\<rparr>)"
    and "dial_inv la addrs (d\<lparr>ds_pending := remove1 a (ds_pending d), ds_punches := ps,
      ds_conns := ds_conns d @ [a], ds_doneCh := True, ds_panicked := ds_doneCh d\<rparr>)"
    and "dial_target la a = Inl e \<Longrightarrow>
      dial_inv la addrs (d\<lparr>ds_pending := remove1 a (ds_pending d), ds_errCh := ds_errCh d @ [e]\<rparr>)"
proof -
  have sub: "set (remove1 a (ds_pending d)) \<subseteq> set addrs"
    using assms(1) set_remove1_subset [of a "ds_pending d"] by (auto simp: dial_inv_def)
  have a: "a \<in> set addrs" "ds_pending d \<noteq> []" using assms(1,3) by (auto simp: dial_inv_def)
  have len: "length (ds_conns d) = (if ds_doneCh d then 1 else 0)"
    using assms(1,2) by (auto simp: dial_inv_def le_less numeral_2_eq_2 less_Suc_eq)
  show "dial_inv la addrs (d\<lparr>ds_pending := remove1 a (ds_pending d), ds_punches := ps\<rparr>)"
    using assms(1) sub a by (auto simp: dial_inv_def split: dial_main.splits option.splits)
  show "dial_inv la addrs (d\<lparr>ds_pending := remove1 a (ds_pending d), ds_punches := ps,
      ds_conns := ds_conns d @ [a], ds_doneCh := True, ds_panicked := ds_doneCh d\<rparr>)"
    using assms(1) sub a len by (auto simp: dial_inv_def split: dial_main.splits option.splits if_splits)
  show "dial_inv la addrs (d\<lparr>ds_pending := remove1 a (ds_pending d), ds_errCh := ds_errCh d @ [e]\<rparr>)"
    if "dial_target la a = Inl e"
    using assms(1) sub a that by (auto simp: dial_inv_def split: dial_main.splits option.splits)
qed

lemma dial_inv_step: "dial_step la d d' \<Longrightarrow> dial_inv la addrs d \<Longrightarrow> dial_inv la addrs d'"
  by (induction rule: dial_step.induct)
    (simp_all add: dial_inv_goroutine, auto simp: dial_inv_def split: dial_main.splits option.splits)

interpretation dialling: invariant_system "\<lambda>d. \<exists>ch. d = dial_init addrs ch" "dial_step la" "dial_inv la addrs" for addrs la
  by unfold_locales (auto simp: dial_inv_step, simp add: dial_inv_def dial_init_def)

text \<open>A dial makes finitely many steps, and while the caller waits there is always one to make.\<close>

definition dial_measure :: "dial_state \<Rightarrow> nat" where
  "dial_measure d = length (ds_pending d) + (if ds_main d = Selecting then 2 else 0) +
     (if ds_connectedCh d = [] then 1 else 0)"

lemma dial_step_measure: "dial_step la d d' \<Longrightarrow> dial_measure d' < dial_measure d"
  by (induction rule: dial_step.induct)
    (auto simp: dial_measure_def length_remove1 dest: length_pos_if_in_set)

lemma dial_progress:
  assumes "\<not> ds_panicked d" and "ds_main d = Selecting \<or> ds_pending d \<noteq> []"
  shows "\<exists>d'. dial_step la d d'"
proof (cases "ds_pending d")
  case (Cons a as)
  then have "a \<in> set (ds_pending d)" by simp
  then show ?thesis
    using assms(1) bad_address tcp_failed by (cases "dial_target la a") blast+
next
  case Nil
  then have "ds_main d = Selecting" using assms(2) by simp
  note ready = assms(1) this
  show ?thesis
    using select_done [OF ready] select_connected [OF ready] select_err [OF ready] select_timeout [OF ready Nil]
    by (meson neq_Nil_conv)
qed

lemma two_connections:
  assumes "a \<in> set addrs" and "b \<in> set (remove1 a addrs)" and "dial_target la a = Inr ps" and "dial_target la b = Inr qs"
  shows "\<exists>d. (dial_step la)\<^sup>*\<^sup>* (dial_init addrs ch) d \<and> ds_main d = DialReturned None \<and> ds_panicked d"
proof -
  let ?d0 = "dial_init addrs ch"
  let ?d1 = "?d0\<lparr>ds_pending := remove1 a (ds_pending ?d0), ds_punches := ds_punches ?d0 @ ps,
      ds_conns := ds_conns ?d0 @ [a], ds_doneCh := True, ds_panicked := ds_doneCh ?d0\<rparr>"
  let ?d2 = "?d1\<lparr>ds_main := DialReturned None\<rparr>"
  let ?d3 = "?d2\<lparr>ds_pending := remove1 b (ds_pending ?d2), ds_punches := ds_punches ?d2 @ qs,
      ds_conns := ds_conns ?d2 @ [b], ds_doneCh := True, ds_panicked := ds_doneCh ?d2\<rparr>"
  have "dial_step la ?d0 ?d1" by (rule tcp_connected) (simp_all add: dial_init_def assms)
  moreover have "dial_step la ?d1 ?d2" by (rule select_done) (simp_all add: dial_init_def)
  moreover have "dial_step la ?d2 ?d3" by (rule tcp_connected) (simp_all add: dial_init_def assms)
  ultimately have "(dial_step la)\<^sup>*\<^sup>* ?d0 ?d3" by (meson r_into_rtranclp rtranclp_trans)
  moreover have "ds_main ?d3 = DialReturned None" "ds_panicked ?d3" by simp_all
  ultimately show ?thesis by blast
qed

text \<open>
  C36: Dialling a list of addresses separated by bars, in every run of the caller and its goroutines.
  No run is infinite, and the caller is stuck in none: a run that has not panicked can go on until
  \<^verbatim>\<open>Dial\<close> has returned and all goroutines have finished. \<^verbatim>\<open>Dial\<close> returns nil only after a TCP
  connection or a hole-punching notification, the timeout only when no target connects, and otherwise
  the error of a malformed target. The process panics exactly when a second target connects, since both
  goroutines close the same channel; if two targets are well formed this can happen, and it can
  happen after \<^verbatim>\<open>Dial\<close> has returned nil.
\<close>

theorem Dial_outcomes:
  assumes "Dial_start listenUDP addr t = (t', Inr d0)" and "addrs = Split (CHR ''|'') addr"
  shows "wfP (dial_step la)\<inverse>\<inverse> \<and>
    (\<forall>d. (dial_step la)\<^sup>*\<^sup>* d0 d \<longrightarrow>
      (\<not> ds_panicked d \<and> (ds_main d = Selecting \<or> ds_pending d \<noteq> []) \<longrightarrow> (\<exists>d'. dial_step la d d')) \<and>
      (ds_panicked d \<longleftrightarrow> length (ds_conns d) = 2) \<and>
      (ds_main d = DialReturned None \<longrightarrow> ds_conns d \<noteq> [] \<or> ds_acked d) \<and>
      (\<forall>e. ds_main d = DialReturned (Some e) \<longrightarrow>
        (\<exists>a \<in> set addrs. dial_target la a = Inl e) \<or> e = dial_timeout \<and> ds_pending d = [] \<and> ds_conns d = [])) \<and>
    ((\<exists>a b. a \<in> set addrs \<and> b \<in> set (remove1 a addrs) \<and> \<not> isl (dial_target la a) \<and> \<not> isl (dial_target la b)) \<longrightarrow>
      (\<exists>d. (dial_step la)\<^sup>*\<^sup>* d0 d \<and> ds_main d = DialReturned None \<and> ds_panicked d))"
proof (intro conjI allI impI)
  obtain ch where d0: "d0 = dial_init addrs ch"
    using assms by (auto simp: Dial_start_def setupUDPListener_def split: if_splits option.splits)
  show "wfP (dial_step la)\<inverse>\<inverse>"
    by (rule wfp_if_convertible_to_nat [of _ dial_measure]) (auto dest: dial_step_measure)
  fix d assume "(dial_step la)\<^sup>*\<^sup>* d0 d"
  then have inv: "dial_inv la addrs d" using d0 dialling.reachable_inv by blast
  show "\<exists>d'. dial_step la d d'" if "\<not> ds_panicked d \<and> (ds_main d = Selecting \<or> ds_pending d \<noteq> [])"
    using that dial_progress by blast
  show "ds_panicked d \<longleftrightarrow> length (ds_conns d) = 2" using inv by (simp add: dial_inv_def)
  show "ds_conns d \<noteq> [] \<or> ds_acked d" if "ds_main d = DialReturned None"
    using inv that by (simp add: dial_inv_def)
  show "(\<exists>a \<in> set addrs. dial_target la a = Inl e) \<or> e = dial_timeout \<and> ds_pending d = [] \<and> ds_conns d = []"
    if "ds_main d = DialReturned (Some e)" for e
    using inv that by (simp add: dial_inv_def)
next
  assume "\<exists>a b. a \<in> set addrs \<and> b \<in> set (remove1 a addrs) \<and> \<not> isl (dial_target la a) \<and> \<not> isl (dial_target la b)"
  then obtain a b ps qs where "a \<in> set addrs" "b \<in> set (remove1 a addrs)"
    "dial_target la a = Inr ps" "dial_target la b = Inr qs"
    by (metis sum.collapse(2))
  moreover obtain ch where "d0 = dial_init addrs ch"
    using assms by (auto simp: Dial_start_def setupUDPListener_def split: if_splits option.splits)
  ultimately show "\<exists>d. (dial_step la)\<^sup>*\<^sup>* d0 d \<and> ds_main d = DialReturned None \<and> ds_panicked d"
    using two_connections by blast
qed

text \<open>
  Address normalization. Only addresses of the IPv6 loopback are rewritten, to
  \<^verbatim>\<open>localhost\<close> with the same port; the result is a fixed point, so a peer has one key.
\<close>

theorem NormalizeAddress_spec:
  "(CHR '':'' \<notin> set port \<longrightarrow> NormalizeAddress (''[::1]:'' @ port) = ''localhost:'' @ port) \<and>
   (\<not> HasPrefix addr ''[::1]:'' \<longrightarrow> NormalizeAddress addr = addr) \<and>
   NormalizeAddress (NormalizeAddress addr) = NormalizeAddress addr"
proof (intro conjI impI)
  assume "CHR '':'' \<notin> set port"
  then have "LastIndexChar (CHR '':'') (''[::1]'' @ CHR '':'' # port) = Some (length ''[::1]'')"
    by (rule LastIndexChar_append)
  then show "NormalizeAddress (''[::1]:'' @ port) = ''localhost:'' @ port"
    by (simp add: NormalizeAddress_def HasPrefix_def)
next
  show "NormalizeAddress (NormalizeAddress addr) = NormalizeAddress addr"
    by (auto simp: NormalizeAddress_def HasPrefix_def split: option.splits)
qed (simp add: NormalizeAddress_def)

subsection \<open>Examples\<close>

text \<open>The channel is full when the second of three messages arrives.\<close>

theorem conn_loop_delivers_witness:
  "conn_loop (\<lambda>k. k = 1) ''p'' 0 0 [Data [0, 0, 0], Data [2, 7, 8, 0, 0], Data [0, 1, 9], Data [0, 0, 0, 1, 5]] =
    ([\<lparr>rpc_From = ''p'', rpc_Payload = [7, 8], rpc_Stream = False\<rparr>,
      \<lparr>rpc_From = ''p'', rpc_Payload = [5], rpc_Stream = False\<rparr>],
     DecodeFailed (Errorf ''failed to read message length: EOF''))"
proof -
  let ?c = "[Data [0, 0, 0], Data [2, 7, 8, 0, 0], Data [0, 1, 9], Data [0, 0, 0, 1, 5]]"
  have m: "m \<noteq> [] \<and> length m \<le> maxMessageSize" if "m \<in> set [[7, 8], [9], [5 :: byte]]" for m
    using that by (auto simp: maxMessageSize_def)
  have "segments ?c = Some (concat (map frame [[7, 8], [9], [5]]))"
    by (simp add: frame_def PutUint32_def)
  from conn_loop_delivers [where full = "\<lambda>k. k = 1", OF m this] show ?thesis by simp
qed

theorem conn_loop_never_retries_witness:
  "conn_loop (\<lambda>_. False) ''p'' 0 0 [Data [0, 0], Fail (NetError True ''i/o timeout'')] =
     ([], DecodeFailed (Errorf ''failed to read message length: i/o timeout''))"
proof -
  have "DefaultDecoder_Decode [Data [0, 0], Fail (NetError True ''i/o timeout'')] =
     (Inl (Errorf ''failed to read message length: i/o timeout''), [])"
    by (simp add: DefaultDecoder_Decode_def eval_nat_numeral)
  moreover have "\<not> StrContains (''failed to read message length: i/o timeout'') ''use of closed network connection''"
    by (simp add: HasPrefix_def)
  ultimately show ?thesis
    using conn_loop_never_retries [of "[Data [0, 0], Fail (NetError True ''i/o timeout'')]"
        "Errorf ''failed to read message length: i/o timeout''" "[]" "\<lambda>_. False" "''p''" 0 0]
    by simp
qed

theorem Dial_outcomes_witness:
  "\<exists>t d0 d. Dial_start (\<lambda>_. None) ''1.2.3.4:3000|10.0.0.2:3000'' (NewTCPTransport '':3000'') = (t, Inr d0) \<and>
    (dial_step '':3000'')\<^sup>*\<^sup>* d0 d \<and> ds_main d = DialReturned None \<and> ds_panicked d"
proof -
  have split: "[''1.2.3.4:3000'', ''10.0.0.2:3000''] = Split (CHR ''|'') ''1.2.3.4:3000|10.0.0.2:3000''"
    by code_simp
  have "SplitHostPort ''1.2.3.4:3000'' = Inr (''1.2.3.4'', ''3000'')"
    "SplitHostPort ''10.0.0.2:3000'' = Inr (''10.0.0.2'', ''3000'')"
    "Atoi ''3000'' = (3000, False)"
    by code_simp+
  then have wf: "\<not> isl (dial_target '':3000'' ''1.2.3.4:3000'')" "\<not> isl (dial_target '':3000'' ''10.0.0.2:3000'')"
    by (simp_all add: dial_target_def)
  obtain t d0 where start: "Dial_start (\<lambda>_. None) ''1.2.3.4:3000|10.0.0.2:3000'' (NewTCPTransport '':3000'') = (t, Inr d0)"
    by (simp add: Dial_start_def setupUDPListener_def NewTCPTransport_def del: Split.simps)
  have "\<exists>a b. a \<in> set [''1.2.3.4:3000'', ''10.0.0.2:3000''] \<and> b \<in> set (remove1 a [''1.2.3.4:3000'', ''10.0.0.2:3000'']) \<and>
      \<not> isl (dial_target '':3000'' a) \<and> \<not> isl (dial_target '':3000'' b)"
    using wf by (intro exI [of _ "''1.2.3.4:3000''"] exI [of _ "''10.0.0.2:3000''"]) simp
  then show ?thesis
    using Dial_outcomes [OF start split, of "'':3000''"] start by blast
qed

theorem NormalizeAddress_spec_witness:
  "NormalizeAddress ''[::1]:3000'' = ''localhost:3000'' \<and> NormalizeAddress ''10.0.0.2:3000'' = ''10.0.0.2:3000''"
  using NormalizeAddress_spec [of "''3000''" "''10.0.0.2:3000''"] by (simp add: HasPrefix_def)

end
