(* ===== verification/Piece_Verification.thy ===== *)
theory Piece_Verification
  imports Go_IO Go_Hash
begin

section \<open>Piece verification (piece\_verification.go)\<close>

text \<open>
  Chunk hashes and the hash of the whole file. The file is read twice: once by \<^verbatim>\<open>io.Copy\<close> into the
  total hash and once chunk by chunk, one \<^verbatim>\<open>Read\<close> call per chunk.
\<close>

definition calculateHash :: "bytes \<Rightarrow> string" where
  "calculateHash data = EncodeToString (sha1 data)"

definition verifyChunk :: "bytes \<Rightarrow> string \<Rightarrow> bool" where
  "verifyChunk data expectedHash = (calculateHash data = expectedHash)"

text \<open>The chunk loop: \<open>rest\<close> is unread, \<open>i\<close> the next chunk, \<open>k\<close> chunks to go.\<close>

fun hash_chunks ::
  "(nat \<Rightarrow> read_step) \<Rightarrow> nat \<Rightarrow> nat \<Rightarrow> nat \<Rightarrow> bytes \<Rightarrow> go_error + string list" where
  "hash_chunks plan chunkSize i 0 rest = Inr []"
| "hash_chunks plan chunkSize i (Suc k) rest =
     (case file_Read (plan i) chunkSize rest of
        (got, err) \<Rightarrow>
          if err \<noteq> None \<and> err \<noteq> Some EOF then
            Inl (Errorf (''failed to read chunk: '' @ (case err of None \<Rightarrow> [] | Some e \<Rightarrow> Error e)))
          else
            (case hash_chunks plan chunkSize (Suc i) k (drop (length got) rest) of
               Inl e \<Rightarrow> Inl e
             | Inr hs \<Rightarrow> Inr (calculateHash got # hs)))"

definition generateFileHashes ::
  "faults \<Rightarrow> filesystem \<Rightarrow> string \<Rightarrow> int \<Rightarrow> (go_error + string list \<times> string \<times> int) outcome" where
  "generateFileHashes fl fs filePath chunkSize =
     (case os_Open fl fs filePath of
        Inl e \<Rightarrow> Return (Inl (Errorf (''failed to open file: '' @ Error e)))
      | Inr content \<Rightarrow>
          (case stat_fault fl filePath of
             Some e \<Rightarrow> Return (Inl (Errorf (''failed to get file info: '' @ Error e)))
           | None \<Rightarrow>
               let totalSize = int (length content)
               in if chunkSize = 0 then Panic
                  else
                    let numChunks = quot (wrap64 (wrap64 (totalSize + chunkSize) - 1)) chunkSize
                    in if numChunks < 0 then Panic
                       else case copy_fault fl filePath of
                         Some e \<Rightarrow> Return (Inl (Errorf (''failed to calculate total hash: '' @ Error e)))
                       | None \<Rightarrow>
                           if chunkSize < 0 then Panic
                           else
                           (case hash_chunks (read_plan fl filePath) (nat chunkSize) 0 (nat numChunks) content of
                              Inl e \<Rightarrow> Return (Inl e)
                            | Inr hs \<Rightarrow> Return (Inr (hs, calculateHash content, totalSize)))))"

subsection \<open>Lemmas\<close>

lemma length_calculateHash [simp]: "length (calculateHash data) = 40"
  by (simp add: calculateHash_def)

lemma hash_chunks_full:
  assumes "\<And>j. \<exists>cap \<ge> cs. plan j = ReadSome cap" and "0 < cs" and "k * cs < length rest + cs"
  shows "hash_chunks plan cs i k rest = Inr (map (\<lambda>j. calculateHash (block cs rest j)) [0..<k])"
  using assms(3)
proof (induction k arbitrary: i rest)
  case (Suc k)
  then have "rest \<noteq> []" by (cases rest) auto
  obtain cap where cap: "plan i = ReadSome cap" "cs \<le> cap" using assms(1) by blast
  have read: "file_Read (plan i) cs rest = (take cs rest, None)"
    unfolding cap(1) using cap(2) \<open>rest \<noteq> []\<close> assms(2) by (rule file_Read_full)
  have drop: "drop (min (length rest) cs) rest = drop cs rest"
    by (simp add: min_def)
  have "k * cs < length (drop cs rest) + cs" using Suc.prems assms(2) by (cases k) auto
  then have IH: "hash_chunks plan cs (Suc i) k (drop cs rest) =
      Inr (map (\<lambda>j. calculateHash (block cs (drop cs rest) j)) [0..<k])"
    by (rule Suc.IH)
  have "map (\<lambda>j. calculateHash (block cs rest j)) [0..<Suc k] =
      calculateHash (take cs rest) # map (\<lambda>j. calculateHash (block cs (drop cs rest) j)) [0..<k]"
    by (simp add: upt_conv_Cons map_Suc_upt [symmetric] block_def add.commute del: upt_Suc)
  with IH show ?case by (simp add: read drop)
qed simp

definition num_chunks :: "nat \<Rightarrow> nat \<Rightarrow> nat" where
  "num_chunks cs len = (len + cs - 1) div cs"

lemma num_chunks_bound: "0 < cs \<Longrightarrow> num_chunks cs len * cs < len + cs"
  by (simp add: num_chunks_def) (metis Suc_pred add_gr_0 div_times_less_eq_dividend le_imp_less_Suc)

lemma num_chunks_covers: "0 < cs \<Longrightarrow> len \<le> num_chunks cs len * cs"
proof -
  assume "0 < cs"
  then have "len + cs - 1 < (num_chunks cs len + 1) * cs"
    unfolding num_chunks_def using dividend_less_div_times [of cs "len + cs - 1"] by simp
  then show ?thesis using \<open>0 < cs\<close> by simp
qed

lemma num_chunks_less: "0 < cs \<Longrightarrow> i < num_chunks cs len \<longleftrightarrow> i * cs < len"
proof
  assume cs: "0 < cs" and i: "i < num_chunks cs len"
  then have "(i + 1) * cs \<le> num_chunks cs len * cs" by (intro mult_le_mono1) simp
  then show "i * cs < len" using num_chunks_bound [OF cs, of len] by simp
next
  assume cs: "0 < cs" and "i * cs < len"
  then have "i * cs < num_chunks cs len * cs" using num_chunks_covers [OF cs, of len] by linarith
  then show "i < num_chunks cs len" by simp
qed

lemma generateFileHashes_ok:
  assumes "fs path = Some content" and "open_fault fl path = None" and "stat_fault fl path = None"
    and "copy_fault fl path = None" and "\<And>j. \<exists>cap \<ge> nat cs. read_plan fl path j = ReadSome cap"
    and "0 < cs" and "int (length content) + cs < 9223372036854775808"
  shows "generateFileHashes fl fs path cs = Return (Inr
    (map (\<lambda>j. calculateHash (block (nat cs) content j)) [0..<num_chunks (nat cs) (length content)],
     calculateHash content, int (length content)))"
proof -
  let ?n = "num_chunks (nat cs) (length content)"
  have w: "wrap64 (int (length content) + cs) = int (length content) + cs"
    "wrap64 (int (length content) + cs - 1) = int (length content) + cs - 1"
    using assms(6,7) by (simp_all add: wrap64_small)
  have "quot (int (length content) + cs - 1) cs = (int (length content) + cs - 1) div cs"
    using assms(6) by (intro quot_nonneg) auto
  also have "\<dots> = int ?n"
  proof -
    have "int (length content + nat cs - 1) = int (length content) + cs - 1" using assms(6) by simp
    then show ?thesis using assms(6) by (simp add: num_chunks_def zdiv_int)
  qed
  finally have q: "quot (int (length content) + cs - 1) cs = int ?n" .
  have "hash_chunks (read_plan fl path) (nat cs) 0 ?n content =
      Inr (map (\<lambda>j. calculateHash (block (nat cs) content j)) [0..<?n])"
    using assms(5,6) num_chunks_bound by (intro hash_chunks_full) auto
  then show ?thesis
    using assms(1-4,6) by (simp add: generateFileHashes_def os_Open_def w q Let_def)
qed

subsection \<open>Properties\<close>

text \<open>
  C18: Hashing a file. When nothing fails and every \<^verbatim>\<open>Read\<close> fills the buffer or reaches the end of
  the file, there is one hash per chunk, the chunks are the consecutive blocks of the file and
  together make up the file, each of them passes \<^verbatim>\<open>verifyChunk\<close> against its hash, and the total
  hash and size are those of the whole content.
\<close>

theorem generateFileHashes_spec:
  assumes "fs path = Some content" and "open_fault fl path = None" and "stat_fault fl path = None"
    and "copy_fault fl path = None" and "\<And>j. \<exists>cap \<ge> nat cs. read_plan fl path j = ReadSome cap"
    and "0 < cs" and "int (length content) + cs < 9223372036854775808"
  shows "\<exists>hs. generateFileHashes fl fs path cs =
      Return (Inr (hs, calculateHash content, int (length content))) \<and>
    concat (map (block (nat cs) content) [0..<length hs]) = content \<and>
    (\<forall>i < length hs. block (nat cs) content i \<noteq> [] \<and> verifyChunk (block (nat cs) content i) (hs ! i))"
proof (intro exI conjI)
  let ?hs = "map (\<lambda>j. calculateHash (block (nat cs) content j)) [0..<num_chunks (nat cs) (length content)]"
  have cs: "0 < nat cs" using assms(6) by simp
  show "generateFileHashes fl fs path cs = Return (Inr (?hs, calculateHash content, int (length content)))"
    using assms by (rule generateFileHashes_ok)
  show "concat (map (block (nat cs) content) [0..<length ?hs]) = content"
    using num_chunks_covers [OF cs, of "length content"] by (simp add: concat_all_blocks)
  show "\<forall>i < length ?hs. block (nat cs) content i \<noteq> [] \<and> verifyChunk (block (nat cs) content i) (?hs ! i)"
    using cs by (simp add: verifyChunk_def num_chunks_less block_def)
qed

text \<open>
  The chunk loop relies on full reads: it calls \<^verbatim>\<open>Read\<close> once per chunk. When the first call
  returns only \<open>n\<close> bytes, fewer than a chunk, the first hash is the hash of those bytes and the
  second chunk's hash starts at byte \<open>n\<close>, not at the chunk boundary.
\<close>

theorem hash_chunks_short_read:
  assumes "plan 0 = ReadSome n" "plan 1 = ReadSome cap" "cs \<le> cap" "0 < n" "n < cs" "n < length content"
    and "hash_chunks plan cs 0 (Suc (Suc k)) content = Inr hs"
  shows "hs ! 0 = calculateHash (take n content) \<and> hs ! 1 = calculateHash (take cs (drop n content))"
proof -
  have r0: "file_Read (plan 0) cs content = (take n content, None)"
    using assms(1,4,5,6) by (auto simp: file_Read_def)
  have r1: "file_Read (plan (Suc 0)) cs (drop n content) = (take cs (drop n content), None)"
    using assms(2-6) by (auto simp: file_Read_def min_def)
  from assms(6) have "drop (length (take n content)) content = drop n content" by simp
  with assms(7) r0 r1 show ?thesis by (auto split: sum.splits)
qed

theorem generateFileHashes_spec_witness:
  "\<exists>hs. generateFileHashes no_faults [''a'' \<mapsto> [1, 2, 3]] ''a'' 2 =
      Return (Inr (hs, calculateHash [1, 2, 3], 3)) \<and>
    concat (map (block 2 [1, 2, 3]) [0..<length hs]) = [1, 2, 3 :: byte] \<and>
    (\<forall>i < length hs. verifyChunk (block 2 [1, 2, 3]  i) (hs ! i))"
proof -
  have plan: "\<exists>cap \<ge> nat 2. read_plan no_faults ''a'' j = ReadSome cap" for j
    by (simp add: no_faults_def)
  have "[''a'' \<mapsto> [1, 2, 3 :: byte]] ''a'' = Some [1, 2, 3]" "open_fault no_faults ''a'' = None"
    "stat_fault no_faults ''a'' = None" "copy_fault no_faults ''a'' = None" "0 < (2 :: int)"
    "int (length [1, 2, 3 :: byte]) + 2 < 9223372036854775808"
    by (simp_all add: no_faults_def)
  from generateFileHashes_spec [where fs = "[''a'' \<mapsto> [1, 2, 3]]" and path = "''a''", OF this(1-4) plan this(5,6)] show ?thesis by auto
qed

theorem hash_chunks_short_read_witness:
  "\<exists>hs. hash_chunks (\<lambda>i. if i = 0 then ReadSome 1 else ReadSome 2) 2 0 2 [7, 8, 9] = Inr hs \<and>
     hs ! 0 = calculateHash [7] \<and> hs ! 1 = calculateHash [8, 9]"
proof -
  let ?plan = "\<lambda>i. if i = 0 then ReadSome 1 else ReadSome 2"
  obtain hs where hs: "hash_chunks ?plan 2 0 (Suc (Suc 0)) [7, 8, 9] = Inr hs"
    by (simp add: file_Read_def)
  have "hs ! 0 = calculateHash (take 1 [7, 8, 9]) \<and> hs ! 1 = calculateHash (take 2 (drop 1 [7, 8, 9]))"
    by (rule hash_chunks_short_read [where cap = 2, OF _ _ _ _ _ _ hs]) simp_all
  with hs show ?thesis by (simp add: numeral_2_eq_2)
qed

end
