(* ===== verification/Store.thy ===== *)
theory Store
  imports Wire Piece_Verification
begin

section \<open>The store (store.go)\<close>

text \<open>
  Content addresses, reading one chunk of a shared file, cutting a file into stored chunks, and
  the metadata files. The JSON encoding of \<^verbatim>\<open>encoding/json\<close> is a pair of parameters,
  \<open>enc\<close> and \<open>dec\<close>; what a theorem needs of them is that decoding inverts encoding on the
  metadata at hand.

  Two simplifications. Paths are compared as strings, so two spellings of one path are two files.
  \<open>ChunkAndStore\<close> reads the source file as it was when it was opened: a source file that is itself one
  of the chunk files being written is read without the effect of these writes.
\<close>

definition ChunkSize :: int where
  "ChunkSize = 1024 * 1024 * 16"

record PathKey =
  PathName :: string
  Filename :: string

definition FullPath :: "PathKey \<Rightarrow> string" where
  "FullPath p = PathName p @ ''/'' @ Filename p"

definition CASPathTransformFunc :: "string \<Rightarrow> PathKey" where
  "CASPathTransformFunc key =
     (let hashStr = EncodeToString (sha1 (bytes_of key))
      in \<lparr>PathName = take 5 hashStr, Filename = hashStr\<rparr>)"

definition DefaultPathTransformFunc :: "string \<Rightarrow> PathKey" where
  "DefaultPathTransformFunc = CASPathTransformFunc"

record StoreOpts =
  Root :: string
  PathTransformFunc :: "(string \<Rightarrow> PathKey) option"

definition NewStore :: "StoreOpts \<Rightarrow> StoreOpts" where
  "NewStore opts =
     (let o1 = (if PathTransformFunc opts = None
                then opts\<lparr>PathTransformFunc := Some DefaultPathTransformFunc\<rparr> else opts)
      in if length (Root o1) = 0 then o1\<lparr>Root := ''store''\<rparr> else o1)"

subsection \<open>Chunks\<close>

definition ReadChunk ::
  "faults \<Rightarrow> filesystem \<Rightarrow> string \<Rightarrow> int \<Rightarrow> (go_error + bytes) outcome" where
  "ReadChunk fl fs filePath chunkIndex =
     (case os_Open fl fs filePath of
        Inl e \<Rightarrow> Return (Inl (Errorf (''failed to open file: '' @ Error e)))
      | Inr content \<Rightarrow>
          (case stat_fault fl filePath of
             Some e \<Rightarrow> Return (Inl (Errorf (''failed to get file info: '' @ Error e)))
           | None \<Rightarrow>
               let size = int (length content);
                   startOffset = wrap64 (chunkIndex * ChunkSize)
               in if startOffset \<ge> size
                  then Return (Inl (Errorf ''chunk start offset exceeds file size''))
                  else
                    let e0 = wrap64 (startOffset + ChunkSize);
                        endOffset = (if e0 > size then size else e0);
                        chunkSize = wrap64 (endOffset - startOffset)
                    in if chunkSize < 0 then Panic
                       else
                         (case file_ReadAt (readat_fault fl filePath) content (nat chunkSize) startOffset of
                            (got, err) \<Rightarrow>
                              if err \<noteq> None \<and> err \<noteq> Some EOF then
                                Return (Inl (Errorf (''failed to read chunk: '' @
                                  (case err of None \<Rightarrow> [] | Some e \<Rightarrow> Error e))))
                              else Return (Inr (got @ replicate (nat chunkSize - length got) 0)))))"

definition chunk_dir :: "string \<Rightarrow> string \<Rightarrow> string" where
  "chunk_dir root fileID = root @ ''/'' @ fileID"

definition chunk_name :: "string \<Rightarrow> nat \<Rightarrow> string" where
  "chunk_name fileID i = fileID @ ''_chunk_'' @ show_nat i"

definition writeChunk ::
  "faults \<Rightarrow> string \<Rightarrow> string \<Rightarrow> string \<Rightarrow> string \<Rightarrow> bytes \<Rightarrow> filesystem \<Rightarrow> filesystem \<times> nat \<times> go_error option" where
  "writeChunk fl root fileID name ext data fs =
     (case mkdir_fault fl (chunk_dir root fileID) of
        Some e \<Rightarrow> (fs, 0, Some e)
      | None \<Rightarrow>
          create_and_write fl (chunk_dir root fileID @ ''/'' @ TrimSuffix name ''.'' @ ext) data fs)"

text \<open>
  The read loop of \<^verbatim>\<open>ChunkAndStore\<close>: the number of chunks written when the end of the file is
  reached. \<open>rest\<close> is unread, \<open>i\<close> is \<^verbatim>\<open>chunkIndex\<close> and numbers the read calls as well.
\<close>

function store_chunks ::
  "faults \<Rightarrow> string \<Rightarrow> string \<Rightarrow> string \<Rightarrow> (nat \<Rightarrow> read_step) \<Rightarrow> nat \<Rightarrow> bytes \<Rightarrow> filesystem \<Rightarrow>
   filesystem \<times> (go_error + nat)" where
  "store_chunks fl root fileID ext plan i rest fs =
     (case file_Read (plan i) (nat ChunkSize) rest of
        (got, Some e) \<Rightarrow>
          if e = EOF then (fs, Inr i)
          else (fs, Inl (Errorf (''failed to read chunk: '' @ Error e)))
      | (got, None) \<Rightarrow>
          (case writeChunk fl root fileID (chunk_name fileID i) ext got fs of
             (fs', _, Some e) \<Rightarrow> (fs', Inl (Errorf (''failed to write chunk: '' @ Error e)))
           | (fs', _, None) \<Rightarrow>
               store_chunks fl root fileID ext plan (Suc i) (drop (length got) rest) fs'))"
  by pat_completeness auto
termination
  by (relation "measure (\<lambda>(fl, root, fileID, ext, plan, i, rest, fs). length rest)")
    (auto simp: file_Read_def ChunkSize_def split: read_step.splits if_splits)

declare store_chunks.simps [simp del]

subsection \<open>Metadata\<close>

definition metadata_path :: "string \<Rightarrow> string \<Rightarrow> string" where
  "metadata_path root fileID = root @ ''/'' @ fileID @ ''_metadata.json''"

definition saveMetadata ::
  "faults \<Rightarrow> (Metadata \<Rightarrow> bytes) \<Rightarrow> string \<Rightarrow> Metadata \<Rightarrow> filesystem \<Rightarrow> filesystem \<times> go_error option" where
  "saveMetadata fl enc root meta fs =
     (case mkdir_fault fl root of
        Some e \<Rightarrow> (fs, Some e)
      | None \<Rightarrow>
          (case create_and_write fl (metadata_path root (md_FileID meta)) (enc meta) fs of
             (fs', _, err) \<Rightarrow> (fs', err)))"

definition GetMetadata ::
  "faults \<Rightarrow> (bytes \<Rightarrow> go_error + Metadata) \<Rightarrow> string \<Rightarrow> string \<Rightarrow> filesystem \<Rightarrow> go_error + Metadata" where
  "GetMetadata fl dec root fileID fs =
     (case os_Open fl fs (metadata_path root fileID) of
        Inl e \<Rightarrow> Inl e
      | Inr content \<Rightarrow> dec content)"

text \<open>\<^verbatim>\<open>Metadata.FullPath\<close> of shared/functions.go; \<open>join\<close> is \<^verbatim>\<open>filepath.Join\<close>.\<close>

definition Metadata_FullPath :: "(string list \<Rightarrow> string) \<Rightarrow> string \<Rightarrow> Metadata \<Rightarrow> string" where
  "Metadata_FullPath join basePath m = join [basePath, md_FileID m @ ''_metadata.json'']"

definition ChunkAndStore ::
  "faults \<Rightarrow> (Metadata \<Rightarrow> bytes) \<Rightarrow> string \<Rightarrow> string \<Rightarrow> string \<Rightarrow> filesystem \<Rightarrow>
   filesystem \<times> (go_error + Metadata)" where
  "ChunkAndStore fl enc root fileID filePath fs =
     (case os_Open fl fs filePath of
        Inl e \<Rightarrow> (fs, Inl (Errorf (''failed to open file: '' @ Error e)))
      | Inr content \<Rightarrow>
          (case store_chunks fl root fileID (Ext filePath) (read_plan fl filePath) 0 content fs of
             (fs1, Inl e) \<Rightarrow> (fs1, Inl e)
           | (fs1, Inr n) \<Rightarrow>
               let meta = \<lparr>md_FileID = fileID, md_NumChunks = int n, md_ChunkSize = ChunkSize,
                           md_FileExtension = Ext filePath, md_OriginalPath = [], md_ChunkHashes = [],
                           md_TotalHash = [], md_TotalSize = 0\<rparr>
               in case saveMetadata fl enc root meta fs1 of
                    (fs2, Some e) \<Rightarrow> (fs2, Inl (Errorf (''failed to save metadata: '' @ Error e)))
                  | (fs2, None) \<Rightarrow> (fs2, Inr meta)))"

subsection \<open>Reading one chunk\<close>

lemma nat_ChunkSize: "nat ChunkSize = 16777216" "0 < ChunkSize"
  by (simp_all add: ChunkSize_def)

lemma ReadChunk_block:
  assumes "fs path = Some content" and "open_fault fl path = None" and "stat_fault fl path = None"
    and "readat_fault fl path = None" and "length content < 2 ^ 62" and "i * 16777216 < length content"
  shows "ReadChunk fl fs path (int i) = Return (Inr (block 16777216 content i))"
proof -
  let ?n = "length content"
  have bound: "int ?n < 4611686018427387904" using assms(5) by simp
  have start: "wrap64 (int i * ChunkSize) = int (i * 16777216)"
    using assms(6) bound by (simp add: ChunkSize_def wrap64_small)
  have e0: "wrap64 (int (i * 16777216) + ChunkSize) = int (i * 16777216 + 16777216)"
    using assms(6) bound by (simp add: ChunkSize_def wrap64_small)
  define e where "e = min ?n (i * 16777216 + 16777216)"
  have e_eq: "(if int (i * 16777216 + 16777216) > int ?n then int ?n else int (i * 16777216 + 16777216)) = int e"
    by (simp add: e_def min_def)
  have le: "i * 16777216 \<le> e" using assms(6) by (simp add: e_def)
  have len: "wrap64 (int e - int (i * 16777216)) = int (e - i * 16777216)"
  proof -
    have "int e - int (i * 16777216) = int (e - i * 16777216)" using le by simp
    moreover have "int (e - i * 16777216) < 9223372036854775808" using bound by (simp add: e_def)
    ultimately show ?thesis by (simp add: wrap64_small del: of_nat_diff)
  qed
  have read: "file_ReadAt None content (e - i * 16777216) (int (i * 16777216)) =
      (take (e - i * 16777216) (drop (i * 16777216) content), None)"
    using file_ReadAt_inside [of "int (i * 16777216)" "e - i * 16777216" content] le
    by (simp add: e_def del: of_nat_mult)
  have e_min: "e - i * 16777216 = min (?n - i * 16777216) 16777216"
    unfolding e_def by linarith
  then have blk: "take (e - i * 16777216) (drop (i * 16777216) content) = block 16777216 content i"
    by (simp add: block_def min_def)
  have len2: "length (block 16777216 content i) = e - i * 16777216"
    by (simp add: length_block e_min min.commute)
  show ?thesis
    unfolding ReadChunk_def os_Open_def assms(1-4) option.case sum.case Let_def start e0 e_eq len nat_int read
    using assms(6) by (simp add: blk len2 flip: of_nat_mult)
qed

lemma ReadChunk_beyond:
  assumes "fs path = Some content" and "open_fault fl path = None" and "stat_fault fl path = None"
    and "length content \<le> i * 16777216" and "i < 2 ^ 39"
  shows "ReadChunk fl fs path (int i) = Return (Inl (Errorf ''chunk start offset exceeds file size''))"
proof -
  have "wrap64 (int i * ChunkSize) = int (i * 16777216)"
    using assms(5) by (simp add: ChunkSize_def wrap64_small)
  moreover have "int (length content) \<le> int (i * 16777216)" using assms(4) by (rule of_nat_mono)
  ultimately show ?thesis
    using assms(1-3) by (simp add: ReadChunk_def os_Open_def Let_def)
qed

text \<open>
  The start offset has 64 bits and the chunk size is \<open>2^24\<close>, so of an index only the residue modulo
  \<open>2^40\<close> counts; a residue in the upper half gives a negative offset, which \<^verbatim>\<open>ReadAt\<close> refuses.
\<close>

lemma wrap64_chunk_offset: "wrap64 (i * ChunkSize) = wrap64 (i mod 2 ^ 40 * ChunkSize)"
proof -
  have "i mod 2 ^ 40 * 2 ^ 24 = (i * 2 ^ 24) mod (2 ^ 64 :: int)"
    using mult_mod_right [of "2 ^ 24" i "2 ^ 40"] by (simp add: mult.commute)
  then show ?thesis by (simp add: wrap64_def ChunkSize_def mod_simps)
qed

lemma ReadChunk_mod: "ReadChunk fl fs path i = ReadChunk fl fs path (i mod 2 ^ 40)"
  unfolding ReadChunk_def wrap64_chunk_offset [of i] ..

lemma wrap64_negative_offset:
  assumes "2 ^ 39 \<le> k" and "k < 2 ^ 40"
  shows "wrap64 (k * ChunkSize) = (k - 2 ^ 40) * ChunkSize"
proof -
  have "wrap64 (k * ChunkSize) = wrap64 ((k - 2 ^ 40) * ChunkSize)"
    using wrap64_chunk_offset [of k] wrap64_chunk_offset [of "k - 2 ^ 40"] assms by simp
  also have "\<dots> = (k - 2 ^ 40) * ChunkSize"
    using assms by (intro wrap64_id) (simp add: ChunkSize_def)
  finally show ?thesis .
qed

lemma ReadChunk_negative:
  assumes "fs path = Some content" and "open_fault fl path = None" and "stat_fault fl path = None"
    and "2 ^ 39 \<le> k" and "k < 2 ^ 40"
  shows "ReadChunk fl fs path k = Return (Inl (Errorf ''failed to read chunk: negative offset''))"
proof -
  define off where "off = (k - 2 ^ 40) * ChunkSize"
  have off: "wrap64 (k * ChunkSize) = off" "off < 0" "off + ChunkSize \<le> 0" "- (2 ^ 63) \<le> off"
    using wrap64_negative_offset [OF assms(4,5)] assms(4,5) by (simp_all add: off_def ChunkSize_def)
  have e0: "wrap64 (off + ChunkSize) = off + ChunkSize" "wrap64 ChunkSize = ChunkSize"
    using off(2-4) by (intro wrap64_id; simp add: ChunkSize_def)+
  show ?thesis
    using assms(1-3) off e0 nat_ChunkSize
    by (simp add: ReadChunk_def os_Open_def Let_def file_ReadAt_def)
qed

text \<open>
  C10: What reading a chunk gives for every integer index, on a file of fewer than \<open>2^62\<close> bytes and
  with no I/O fault. Let \<open>k\<close> be the index modulo \<open>2^40\<close> (the offset \<open>index * 2^24\<close> wraps around in
  64 bits). If \<open>k\<close> is below the number of chunks, the answer is block \<open>k\<close> of the file, non-empty,
  16 MiB long except that the last one ends with the file; from there up to \<open>2^39\<close> it is the error
  that the offset exceeds the file size; above, the offset is negative and reading fails. The blocks
  of the indices below the number of chunks put together are the file.
\<close>

theorem ReadChunk_spec:
  assumes "fs path = Some content" and "open_fault fl path = None" and "stat_fault fl path = None"
    and "readat_fault fl path = None" and "length content < 2 ^ 62"
  defines "n \<equiv> num_chunks 16777216 (length content)"
  shows "(\<forall>i. let k = nat (i mod 2 ^ 40)
          in ReadChunk fl fs path i =
               (if k < n then Return (Inr (block 16777216 content k))
                else if k < 2 ^ 39 then Return (Inl (Errorf ''chunk start offset exceeds file size''))
                else Return (Inl (Errorf ''failed to read chunk: negative offset'')))) \<and>
    (\<forall>k < n. block 16777216 content k \<noteq> []) \<and>
    concat (map (block 16777216 content) [0..<n]) = content"
proof (intro conjI allI impI)
  fix i :: int
  define k where "k = nat (i mod 2 ^ 40)"
  have k: "i mod 2 ^ 40 = int k" "k < 2 ^ 40" by (simp_all add: k_def nat_less_iff)
  have "ReadChunk fl fs path (int k) =
               (if k < n then Return (Inr (block 16777216 content k))
                else if k < 2 ^ 39 then Return (Inl (Errorf ''chunk start offset exceeds file size''))
                else Return (Inl (Errorf ''failed to read chunk: negative offset'')))"
    using ReadChunk_block [where fs = fs, OF assms(1-5), of k] ReadChunk_beyond [where fs = fs, OF assms(1-3), of k]
      ReadChunk_negative [where fs = fs, OF assms(1-3), of "int k"] num_chunks_less [of 16777216 k "length content"] k(2)
    by (simp add: n_def)
  then show "let k = nat (i mod 2 ^ 40)
          in ReadChunk fl fs path i =
               (if k < n then Return (Inr (block 16777216 content k))
                else if k < 2 ^ 39 then Return (Inl (Errorf ''chunk start offset exceeds file size''))
                else Return (Inl (Errorf ''failed to read chunk: negative offset'')))"
    unfolding ReadChunk_mod [of fl fs path i] k(1) by (simp add: Let_def)
next
  fix k assume "k < n"
  then show "block 16777216 content k \<noteq> []"
    using num_chunks_less [of 16777216 k "length content"] by (simp add: n_def block_def)
next
  show "concat (map (block 16777216 content) [0..<n]) = content"
    using num_chunks_covers [of 16777216 "length content"] by (simp add: n_def concat_all_blocks)
qed

subsection \<open>Storing chunks\<close>

definition chunk_path :: "string \<Rightarrow> string \<Rightarrow> string \<Rightarrow> nat \<Rightarrow> string" where
  "chunk_path root fileID ext i = chunk_dir root fileID @ ''/'' @ chunk_name fileID i @ ext"

lemma chunk_path_inj [simp]:
  "chunk_path root fileID ext i = chunk_path root fileID ext j \<longleftrightarrow> i = j"
  by (auto simp: chunk_path_def chunk_name_def dest: show_nat_inj)

lemma TrimSuffix_chunk_name: "TrimSuffix (chunk_name fileID i) ''.'' = chunk_name fileID i"
proof (rule TrimSuffix_dot)
  have "of_char (digit_char (i mod 10)) \<noteq> (46 :: nat)" by (simp add: of_char_digit)
  then have "digit_char (i mod 10) \<noteq> CHR ''.''" by auto
  then show "last (chunk_name fileID i) \<noteq> CHR ''.''"
    by (simp add: chunk_name_def last_show_nat)
qed (simp add: chunk_name_def)

lemma writeChunk_ok:
  assumes "mkdir_fault fl (chunk_dir root fileID) = None"
    and "create_fault fl (chunk_path root fileID ext i) = None"
    and "write_fault fl (chunk_path root fileID ext i) = None"
  shows "writeChunk fl root fileID (chunk_name fileID i) ext data fs =
    (fs(chunk_path root fileID ext i \<mapsto> data), length data, None)"
  using assms by (simp add: writeChunk_def create_and_write_def TrimSuffix_chunk_name chunk_path_def)

lemma num_chunks_drop:
  assumes "rest \<noteq> []"
  shows "num_chunks 16777216 (length rest) = Suc (num_chunks 16777216 (length (drop 16777216 rest)))"
proof (cases "16777216 \<le> length rest")
  case True
  then show ?thesis by (simp add: num_chunks_def le_div_geq)
next
  case False
  have "(length rest + 16777216 - 1) div 16777216 = 1"
    using assms False by (intro div_nat_eqI) (simp_all add: Suc_le_eq)
  then show ?thesis using False by (simp add: num_chunks_def)
qed

lemma store_chunks_step:
  assumes "rest \<noteq> []" and "plan i = ReadSome cap" and "16777216 \<le> cap"
    and "mkdir_fault fl (chunk_dir root fileID) = None" "\<And>p. create_fault fl p = None" "\<And>p. write_fault fl p = None"
  shows "store_chunks fl root fileID ext plan i rest fs =
    store_chunks fl root fileID ext plan (Suc i) (drop 16777216 rest)
      (fs(chunk_path root fileID ext i \<mapsto> take 16777216 rest))"
proof -
  have "file_Read (plan i) 16777216 rest = (take 16777216 rest, None)"
    unfolding assms(2) using assms(1,3) by (intro file_Read_full) auto
  moreover have "drop (min (length rest) 16777216) rest = drop 16777216 rest" by (simp add: min_def)
  ultimately show ?thesis
    using assms by (subst store_chunks.simps) (simp add: nat_ChunkSize writeChunk_ok)
qed

lemma store_chunks_ok:
  assumes plan: "\<And>j. \<exists>cap \<ge> 16777216. plan j = ReadSome cap"
    and nf: "mkdir_fault fl (chunk_dir root fileID) = None" "\<And>p. create_fault fl p = None"
      "\<And>p. write_fault fl p = None"
  shows "\<exists>fs'. store_chunks fl root fileID ext plan i rest fs =
      (fs', Inr (i + num_chunks 16777216 (length rest))) \<and>
    (\<forall>j < num_chunks 16777216 (length rest).
       fs' (chunk_path root fileID ext (i + j)) = Some (block 16777216 rest j)) \<and>
    (\<forall>p. (\<forall>j < num_chunks 16777216 (length rest). p \<noteq> chunk_path root fileID ext (i + j)) \<longrightarrow> fs' p = fs p)"
proof (induction "length rest" arbitrary: i rest fs rule: less_induct)
  case less
  obtain cap where cap: "plan i = ReadSome cap" "16777216 \<le> cap" using plan by blast
  show ?case
  proof (cases "rest = []")
    case True
    then show ?thesis
      by (subst store_chunks.simps) (simp add: cap file_Read_def num_chunks_def)
  next
    case False
    let ?rest = "drop 16777216 rest" and ?fs = "fs(chunk_path root fileID ext i \<mapsto> take 16777216 rest)"
    have n: "num_chunks 16777216 (length rest) = Suc (num_chunks 16777216 (length ?rest))"
      by (rule num_chunks_drop [OF False])
    have step: "store_chunks fl root fileID ext plan i rest fs = store_chunks fl root fileID ext plan (Suc i) ?rest ?fs"
      using store_chunks_step [of rest plan i cap fl root fileID ext fs] False cap nf by simp
    have "length ?rest < length rest" using False by (simp add: neq_Nil_conv)
    from less.hyps [OF this, of "Suc i" ?fs] obtain fs' where
      run: "store_chunks fl root fileID ext plan (Suc i) ?rest ?fs =
        (fs', Inr (Suc i + num_chunks 16777216 (length ?rest)))"
      and inside: "\<And>j. j < num_chunks 16777216 (length ?rest) \<Longrightarrow>
        fs' (chunk_path root fileID ext (Suc i + j)) = Some (block 16777216 ?rest j)"
      and outside: "\<And>p. (\<And>j. j < num_chunks 16777216 (length ?rest) \<Longrightarrow>
        p \<noteq> chunk_path root fileID ext (Suc i + j)) \<Longrightarrow> fs' p = ?fs p"
      by blast
    have first: "fs' (chunk_path root fileID ext i) = Some (take 16777216 rest)"
      using outside [of "chunk_path root fileID ext i"] by simp
    have "fs' (chunk_path root fileID ext (i + j)) = Some (block 16777216 rest j)"
      if "j < num_chunks 16777216 (length rest)" for j
    proof (cases j)
      case 0
      then show ?thesis by (simp add: first block_def)
    next
      case (Suc k)
      then show ?thesis using that inside [of k] by (simp add: n block_def add.commute)
    qed
    moreover have "fs' p = fs p"
      if other: "\<And>j. j < num_chunks 16777216 (length rest) \<Longrightarrow> p \<noteq> chunk_path root fileID ext (i + j)" for p
    proof -
      have "p \<noteq> chunk_path root fileID ext (Suc i + j)" if "j < num_chunks 16777216 (length ?rest)" for j
        using other [of "Suc j"] that by (simp add: n)
      moreover have "p \<noteq> chunk_path root fileID ext i"
        using other [of 0] by (simp add: n)
      ultimately show ?thesis using outside [of p] by simp
    qed
    ultimately show ?thesis
      unfolding step run n by (intro exI [of _ fs']) simp
  qed
qed

subsection \<open>Metadata files\<close>

lemma metadata_path_inj [simp]: "metadata_path root a = metadata_path root b \<longleftrightarrow> a = b"
  by (simp add: metadata_path_def)

lemma metadata_not_chunk [simp]:
  "metadata_path root fileID \<noteq> chunk_path root fileID ext i"
  "chunk_path root fileID ext i \<noteq> metadata_path root fileID"
  by (simp_all add: metadata_path_def chunk_path_def chunk_dir_def)

lemma saveMetadata_ok:
  assumes "mkdir_fault fl root = None" and "create_fault fl (metadata_path root (md_FileID m)) = None"
    and "write_fault fl (metadata_path root (md_FileID m)) = None"
  shows "saveMetadata fl enc root m fs = (fs(metadata_path root (md_FileID m) \<mapsto> enc m), None)"
  using assms by (simp add: saveMetadata_def create_and_write_def)

text \<open>
  C38: Metadata round trip. When \<^verbatim>\<open>saveMetadata\<close> reports success, \<^verbatim>\<open>GetMetadata\<close> of that file ID
  returns the saved metadata and \<^verbatim>\<open>GetMetadata\<close> of every other ID answers as before; when it fails
  because the directory or the file cannot be created, nothing on disk has changed.
\<close>

theorem saveMetadata_GetMetadata:
  assumes "dec (enc m) = Inr m" and "\<And>p. open_fault fl p = None"
  shows "(snd (saveMetadata fl enc root m fs) = None \<longrightarrow>
      GetMetadata fl dec root (md_FileID m) (fst (saveMetadata fl enc root m fs)) = Inr m) \<and>
    (\<forall>fid. fid \<noteq> md_FileID m \<longrightarrow>
      GetMetadata fl dec root fid (fst (saveMetadata fl enc root m fs)) = GetMetadata fl dec root fid fs) \<and>
    (mkdir_fault fl root \<noteq> None \<or> create_fault fl (metadata_path root (md_FileID m)) \<noteq> None \<longrightarrow>
      fst (saveMetadata fl enc root m fs) = fs \<and> snd (saveMetadata fl enc root m fs) \<noteq> None)"
  using assms
  by (auto simp: saveMetadata_def create_and_write_def GetMetadata_def os_Open_def
      split: option.splits prod.splits)

text \<open>
  C17: Chunking a file. With no I/O fault and full reads, \<^verbatim>\<open>ChunkAndStore\<close> succeeds; the chunk files
  it leaves are the 16 MiB blocks of the file, numbered from 0 to \<^verbatim>\<open>NumChunks - 1\<close>, and put together
  they are the file; the metadata it returns is what \<^verbatim>\<open>GetMetadata\<close> then reads back; no other path
  of the file system has changed.
\<close>

theorem ChunkAndStore_spec:
  assumes "fs filePath = Some content" and "\<And>p. open_fault fl p = None"
    and "\<And>j. \<exists>cap \<ge> 16777216. read_plan fl filePath j = ReadSome cap"
    and "\<And>p. mkdir_fault fl p = None" "\<And>p. create_fault fl p = None" "\<And>p. write_fault fl p = None"
    and "n = num_chunks 16777216 (length content)"
    and "m = \<lparr>md_FileID = fileID, md_NumChunks = int n, md_ChunkSize = 16777216,
              md_FileExtension = Ext filePath, md_OriginalPath = [], md_ChunkHashes = [],
              md_TotalHash = [], md_TotalSize = 0\<rparr>"
    and "dec (enc m) = Inr m"
  shows "\<exists>fs'. ChunkAndStore fl enc root fileID filePath fs = (fs', Inr m) \<and>
    GetMetadata fl dec root fileID fs' = Inr m \<and>
    (\<forall>j < n. fs' (chunk_path root fileID (Ext filePath) j) = Some (block 16777216 content j)) \<and>
    concat (map (\<lambda>j. the (fs' (chunk_path root fileID (Ext filePath) j))) [0..<n]) = content \<and>
    (\<forall>p. p \<noteq> metadata_path root fileID \<longrightarrow> (\<forall>j < n. p \<noteq> chunk_path root fileID (Ext filePath) j) \<longrightarrow> fs' p = fs p)"
proof -
  let ?cp = "chunk_path root fileID (Ext filePath)"
  obtain fs1 where
    run: "store_chunks fl root fileID (Ext filePath) (read_plan fl filePath) 0 content fs = (fs1, Inr n)"
    and ins: "\<And>j. j < n \<Longrightarrow> fs1 (?cp j) = Some (block 16777216 content j)"
    and out: "\<And>p. (\<And>j. j < n \<Longrightarrow> p \<noteq> ?cp j) \<Longrightarrow> fs1 p = fs p"
    using store_chunks_ok [of "read_plan fl filePath" fl root fileID "Ext filePath" 0 content fs]
      assms(3-7) by auto
  let ?fs = "fs1(metadata_path root fileID \<mapsto> enc m)"
  have save: "saveMetadata fl enc root m fs1 = (?fs, None)"
    using saveMetadata_ok [of fl root m enc fs1] assms(4-6,8) by simp
  have "ChunkAndStore fl enc root fileID filePath fs = (?fs, Inr m)"
    using assms(1,2) run save by (simp add: ChunkAndStore_def os_Open_def ChunkSize_def Let_def flip: assms(8))
  moreover have "GetMetadata fl dec root fileID ?fs = Inr m"
    using assms(2,9) by (simp add: GetMetadata_def os_Open_def)
  moreover have "\<forall>j < n. ?fs (?cp j) = Some (block 16777216 content j)"
    using ins by simp
  moreover have "map (\<lambda>j. the (?fs (?cp j))) [0..<n] = map (block 16777216 content) [0..<n]"
    using ins by simp
  then have "concat (map (\<lambda>j. the (?fs (?cp j))) [0..<n]) = content"
    using num_chunks_covers [of 16777216 "length content"] assms(7) concat_all_blocks
    by (metis zero_less_numeral)
  moreover have "\<forall>p. p \<noteq> metadata_path root fileID \<longrightarrow> (\<forall>j < n. p \<noteq> ?cp j) \<longrightarrow> ?fs p = fs p"
    using out by simp
  ultimately show ?thesis by blast
qed

subsection \<open>Witnesses\<close>

theorem ReadChunk_spec_witness:
  "ReadChunk no_faults [''a'' \<mapsto> [1, 2, 3]] ''a'' 0 = Return (Inr [1, 2, 3]) \<and>
   ReadChunk no_faults [''a'' \<mapsto> [1, 2, 3]] ''a'' 1 =
     Return (Inl (Errorf ''chunk start offset exceeds file size'')) \<and>
   ReadChunk no_faults [''a'' \<mapsto> [1, 2, 3]] ''a'' (- 1) =
     Return (Inl (Errorf ''failed to read chunk: negative offset'')) \<and>
   ReadChunk no_faults [''a'' \<mapsto> [1, 2, 3]] ''a'' (- (2 ^ 40)) = Return (Inr [1, 2, 3])"
proof -
  have "[''a'' \<mapsto> [1, 2, 3 :: byte]] ''a'' = Some [1, 2, 3]" "open_fault no_faults ''a'' = None"
    "stat_fault no_faults ''a'' = None" "readat_fault no_faults ''a'' = None"
    "length [1, 2, 3 :: byte] < 2 ^ 62"
    by (simp_all add: no_faults_def)
  note all = ReadChunk_spec [where fs = "[''a'' \<mapsto> [1, 2, 3]]", OF this, THEN conjunct1]
  show ?thesis
    using all [THEN spec, of 0] all [THEN spec, of 1] all [THEN spec, of "- 1"]
      all [THEN spec, of "- (2 ^ 40)"]
    by (simp add: num_chunks_def block_def Let_def)
qed

definition sample_metadata :: Metadata where
  "sample_metadata =
     \<lparr>md_FileID = ''f'', md_NumChunks = 1, md_ChunkSize = 16777216, md_FileExtension = ''.txt'',
      md_OriginalPath = [], md_ChunkHashes = [], md_TotalHash = [], md_TotalSize = 0\<rparr>"

theorem saveMetadata_GetMetadata_witness:
  "GetMetadata no_faults (\<lambda>_. Inr sample_metadata) ''store'' ''f''
     (fst (saveMetadata no_faults (\<lambda>_. [1]) ''store'' sample_metadata Map.empty)) = Inr sample_metadata"
proof -
  have "md_FileID sample_metadata = ''f''" by (simp add: sample_metadata_def)
  moreover have "snd (saveMetadata no_faults (\<lambda>_. [1]) ''store'' sample_metadata Map.empty) = None"
    by (simp add: saveMetadata_def create_and_write_def no_faults_def)
  ultimately show ?thesis
    using saveMetadata_GetMetadata [where enc = "\<lambda>_. [1]" and dec = "\<lambda>_. Inr sample_metadata"
        and m = sample_metadata and fl = no_faults and root = "''store''" and fs = Map.empty]
    by (simp add: no_faults_def)
qed

theorem ChunkAndStore_spec_witness:
  "\<exists>fs'. ChunkAndStore no_faults (\<lambda>_. [1]) ''store'' ''f'' ''a.txt'' [''a.txt'' \<mapsto> [1, 2, 3]] =
      (fs', Inr sample_metadata) \<and>
    fs' (chunk_path ''store'' ''f'' ''.txt'' 0) = Some [1, 2, 3]"
proof -
  have ext: "Ext ''a.txt'' = ''.txt''" by (simp add: Ext_def Let_def)
  have m: "sample_metadata = \<lparr>md_FileID = ''f'', md_NumChunks = int 1, md_ChunkSize = 16777216,
      md_FileExtension = Ext ''a.txt'', md_OriginalPath = [], md_ChunkHashes = [],
      md_TotalHash = [], md_TotalSize = 0\<rparr>"
    by (simp add: sample_metadata_def ext)
  have "[''a.txt'' \<mapsto> [1, 2, 3 :: byte]] ''a.txt'' = Some [1, 2, 3]"
    "1 = num_chunks 16777216 (length [1, 2, 3 :: byte])"
    by (simp_all add: num_chunks_def)
  moreover have nf: "open_fault no_faults p = None" "\<exists>cap \<ge> 16777216. read_plan no_faults ''a.txt'' j = ReadSome cap"
    "mkdir_fault no_faults p = None" "create_fault no_faults p = None" "write_fault no_faults p = None" for p j
    by (simp_all add: no_faults_def)
  ultimately obtain fs' where "ChunkAndStore no_faults (\<lambda>_. [1]) ''store'' ''f'' ''a.txt'' [''a.txt'' \<mapsto> [1, 2, 3]] =
      (fs', Inr sample_metadata)"
    "\<forall>j < 1. fs' (chunk_path ''store'' ''f'' (Ext ''a.txt'') j) = Some (block 16777216 [1, 2, 3] j)"
    using ChunkAndStore_spec [where fs = "[''a.txt'' \<mapsto> [1, 2, 3]]" and dec = "\<lambda>_. Inr sample_metadata"
        and enc = "\<lambda>_. [1]" and root = "''store''", OF _ nf(1,2,3,4,5) _ m refl]
    by blast
  then show ?thesis by (auto simp: ext block_def)
qed

end
