(* ===== verification/Crypto.thy ===== *)
theory Crypto
  imports Go_Aes Go_Hash Go_IO
begin

section \<open>Identifiers, keys and stream encryption (crypto.go)\<close>

text \<open>
  An \<^verbatim>\<open>io.Reader\<close> is the list of the results its \<^verbatim>\<open>Read\<close> calls will have: bytes together with an
  optional error, as Go allows; a result that does not fit the caller's buffer is delivered in
  parts, and the end of the list is the end of the stream. An \<^verbatim>\<open>io.Writer\<close> maps the number of
  a \<^verbatim>\<open>Write\<close> call and its bytes to the count and the error. The source of random bytes,
  \<^verbatim>\<open>rand.Reader\<close>, is an argument.
\<close>

subsection \<open>Readers and writers\<close>

type_synonym reader = "(bytes \<times> go_error option) list"

fun reader_Read :: "nat \<Rightarrow> reader \<Rightarrow> bytes \<times> go_error option \<times> reader" where
  "reader_Read n [] = ([], Some EOF, [])"
| "reader_Read n ((bs, e) # r) =
     (if length bs > n then (take n bs, None, (drop n bs, e) # r) else (bs, e, r))"

text \<open>What a reader delivers in all, if it reaches its end without another error.\<close>

fun reader_content :: "reader \<Rightarrow> bytes option" where
  "reader_content [] = Some []"
| "reader_content ((bs, None) # r) = map_option ((@) bs) (reader_content r)"
| "reader_content ((bs, Some e) # r) = (if e = EOF then Some bs else None)"

text \<open>A buffer of \<open>n\<close> zero bytes after \<^verbatim>\<open>io.ReadFull\<close> whose error is ignored.\<close>

fun filled :: "nat \<Rightarrow> conn \<Rightarrow> bytes" where
  "filled n [] = replicate n 0"
| "filled n (Fail e # c) = replicate n 0"
| "filled n (Data bs # c) = (if n \<le> length bs then take n bs else bs @ filled (n - length bs) c)"

subsection \<open>Identifiers and keys\<close>

definition generateID :: "conn \<Rightarrow> string" where
  "generateID rand = EncodeToString (filled 32 rand)"

definition hashKey :: "string \<Rightarrow> string" where
  "hashKey key = EncodeToString (md5 (bytes_of key))"

definition newEncryptionKey :: "conn \<Rightarrow> bytes" where
  "newEncryptionKey rand = filled 32 rand"

subsection \<open>Copying through a cipher\<close>

definition reader_size :: "reader \<Rightarrow> nat" where
  "reader_size r = sum_list (map (\<lambda>(bs, _). Suc (length bs)) r)"

lemma reader_Read_progress:
  "reader_Read n r = (bs, None, r') \<Longrightarrow> 0 < n \<Longrightarrow> reader_size r' < reader_size r"
  by (cases "(n, r)" rule: reader_Read.cases) (auto simp: reader_size_def split: if_splits)

text \<open>
  The loop of \<^verbatim>\<open>copyStream\<close>: \<open>off\<close> bytes of the key stream are used, \<open>k\<close> numbers the writes. The
  result is what was written, the count and the error.
\<close>

function copy_loop ::
  "bytes \<Rightarrow> bytes \<Rightarrow> io_writer \<Rightarrow> nat \<Rightarrow> nat \<Rightarrow> nat \<Rightarrow> reader \<Rightarrow> bytes \<times> nat \<times> go_error option" where
  "copy_loop key iv wr off k nw src =
     (case reader_Read (32 * 1024) src of
        (buf, err, src') \<Rightarrow>
          let n = length buf; enc = XORKeyStream key iv off buf;
              (nn, werr) = (if n > 0 then wr k enc else (0, None));
              k' = (if n > 0 then Suc k else k)
          in (case werr of
                Some e \<Rightarrow> (take nn enc, 0, Some e)
              | None \<Rightarrow>
                  (case err of
                     None \<Rightarrow>
                       (case copy_loop key iv wr (off + n) k' (nw + nn) src' of
                          (out, r) \<Rightarrow> (take nn enc @ out, r))
                   | Some e \<Rightarrow>
                       if e = EOF then (take nn enc, nw + nn, None) else (take nn enc, 0, Some e))))"
  by pat_completeness auto
termination
  by (relation "measure (\<lambda>(key, iv, wr, off, k, nw, src). reader_size src)")
    (auto dest!: reader_Read_progress [OF sym])

declare copy_loop.simps [simp del]

definition copyStream ::
  "bytes \<Rightarrow> bytes \<Rightarrow> nat \<Rightarrow> reader \<Rightarrow> io_writer \<Rightarrow> nat \<Rightarrow> bytes \<times> nat \<times> go_error option" where
  "copyStream key iv blockSize src wr k = copy_loop key iv wr 0 k blockSize src"

definition NewCipher_error :: "bytes \<Rightarrow> go_error" where
  "NewCipher_error key = Errorf (''crypto/aes: invalid key size '' @ show_nat (length key))"

definition copyDecrypt :: "bytes \<Rightarrow> reader \<Rightarrow> io_writer \<Rightarrow> bytes \<times> nat \<times> go_error option" where
  "copyDecrypt key src wr =
     (if \<not> aes_key_ok key then ([], 0, Some (NewCipher_error key))
      else
        (case reader_Read aes_BlockSize src of
           (got, Some e, _) \<Rightarrow> ([], 0, Some e)
         | (got, None, src') \<Rightarrow>
             let iv = got @ replicate (aes_BlockSize - length got) 0
             in copyStream key iv aes_BlockSize src' wr 0))"

definition copyEncrypt :: "bytes \<Rightarrow> conn \<Rightarrow> reader \<Rightarrow> io_writer \<Rightarrow> bytes \<times> nat \<times> go_error option" where
  "copyEncrypt key rand src wr =
     (if \<not> aes_key_ok key then ([], 0, Some (NewCipher_error key))
      else
        (case ReadFull aes_BlockSize rand of
           (Inl e, _) \<Rightarrow> ([], 0, Some e)
         | (Inr iv, _) \<Rightarrow>
             (case wr 0 iv of
                (n, Some e) \<Rightarrow> (take n iv, 0, Some e)
              | (n, None) \<Rightarrow>
                  (case copyStream key iv aes_BlockSize src wr 1 of
                     (out, r) \<Rightarrow> (take n iv @ out, r)))))"

subsection \<open>Lemmas\<close>

lemma reader_Read_content:
  assumes "reader_content r = Some c" and "0 < n"
  shows "\<exists>bs e r'. reader_Read n r = (bs, e, r') \<and> (e = None \<or> e = Some EOF) \<and>
    (e = Some EOF \<longrightarrow> c = bs) \<and> (e = None \<longrightarrow> (\<exists>c'. reader_content r' = Some c' \<and> c = bs @ c'))"
proof (cases r)
  case Nil
  with assms show ?thesis by simp
next
  case (Cons p r2)
  obtain bs e where p: "p = (bs, e)" by fastforce
  show ?thesis
  proof (cases "length bs > n")
    case True
    then have "reader_Read n r = (take n bs, None, (drop n bs, e) # r2)" by (simp add: Cons p)
    moreover have "\<exists>c'. reader_content ((drop n bs, e) # r2) = Some c' \<and> c = take n bs @ c'"
      using assms(1) by (cases e) (auto simp: Cons p split: if_splits)
    ultimately show ?thesis by blast
  next
    case False
    then show ?thesis using assms(1) by (cases e) (auto simp: Cons p split: if_splits)
  qed
qed

lemma copy_loop_ok:
  assumes "reliable wr" and "reader_content src = Some c"
  shows "copy_loop key iv wr off k nw src = (XORKeyStream key iv off c, nw + length c, None)"
  using assms(2)
proof (induction "reader_size src" arbitrary: src c off k nw rule: less_induct)
  case less
  obtain bs e src' where read: "reader_Read (32 * 1024) src = (bs, e, src')"
    and e: "e = None \<or> e = Some EOF" "e = Some EOF \<Longrightarrow> c = bs"
    and more: "e = None \<Longrightarrow> \<exists>c'. reader_content src' = Some c' \<and> c = bs @ c'"
    using reader_Read_content [OF less.prems, of "32 * 1024"] by auto
  show ?case
  proof (cases e)
    case None
    with more obtain c' where c': "reader_content src' = Some c'" "c = bs @ c'" by blast
    have "reader_size src' < reader_size src"
      using reader_Read_progress read None by simp
    from less.hyps [OF this c'(1)] read None assms(1) c'(2) show ?thesis
      by (subst copy_loop.simps) (simp add: reliable_def XORKeyStream_append Let_def)
  next
    case (Some _)
    with e read assms(1) show ?thesis
      by (subst copy_loop.simps) (auto simp: reliable_def Let_def)
  qed
qed

lemma length_filled [simp]: "length (filled n c) = n"
  by (induction n c rule: filled.induct) auto

lemma filled_segments: "segments c = Some (bs @ rest) \<Longrightarrow> length bs = n \<Longrightarrow> filled n c = bs"
proof (induction n c arbitrary: bs rule: filled.induct)
  case (3 n b c)
  then obtain s where s: "segments c = Some s" "b @ s = bs @ rest" by auto
  show ?case
  proof (cases "n \<le> length b")
    case True
    then have "take n b = take n (b @ s)" by simp
    also have "\<dots> = bs" using s(2) "3.prems"(2) by simp
    finally show ?thesis using True by simp
  next
    case False
    then obtain b2 where b2: "bs = b @ b2" "s = b2 @ rest"
      using s(2) "3.prems"(2) by (auto simp: append_eq_append_conv2)
    with "3.IH" [OF False, of b2] s(1) "3.prems"(2) False show ?thesis by auto
  qed
qed auto

text \<open>
  Identifiers and keys have their full length whatever the random source does (64 hex digits,
  32 bytes), and when the source delivers, two identifiers are equal only if the 32 random bytes
  are; a generated key is always accepted by the cipher.
\<close>

theorem generated_ids_and_keys:
  "length (generateID rand) = 64 \<and> aes_key_ok (newEncryptionKey rand) \<and>
   (segments r1 = Some (a @ x) \<and> segments r2 = Some (b @ y) \<and> length a = 32 \<and> length b = 32 \<longrightarrow>
      (generateID r1 = generateID r2 \<longleftrightarrow> a = b))"
proof -
  have "generateID r1 = generateID r2 \<longleftrightarrow> a = b"
    if "segments r1 = Some (a @ x)" "segments r2 = Some (b @ y)" "length a = 32" "length b = 32"
    using that filled_segments [of r1 a x 32] filled_segments [of r2 b y 32]
    by (auto simp: generateID_def dest: EncodeToString_inj)
  then show ?thesis by (simp add: generateID_def newEncryptionKey_def aes_key_ok_def)
qed

text \<open>
  C19: Encryption round trip. With a key of a valid size, enough random bytes and writers that
  accept everything, \<^verbatim>\<open>copyEncrypt\<close> writes 16 bytes more than it read and returns that number;
  \<^verbatim>\<open>copyDecrypt\<close> with the same key then writes exactly the plain text again and also returns 16
  plus its length, however the reads of either side are cut, provided the first read of the
  decryption delivers at least the 16 bytes of the initial vector.
\<close>

theorem copyEncrypt_copyDecrypt:
  assumes "aes_key_ok key" and "segments rand = Some (iv @ spare)" and "length iv = 16"
    and "reader_content src = Some plain" and "reliable wr" and "reliable wr2"
    and "copyEncrypt key rand src wr = (ct, n, err)"
    and "reader_content ((first, None) # src2) = Some ct" and "16 \<le> length first"
  shows "err = None \<and> n = 16 + length plain \<and> length ct = n \<and>
    copyDecrypt key ((first, None) # src2) wr2 = (plain, 16 + length plain, None)"
proof -
  obtain rand' where "ReadFull 16 rand = (Inr iv, rand')"
    using ReadFull_segments [OF assms(2)] assms(3) by auto
  with assms(1,3,4,5,7) have enc: "ct = iv @ XORKeyStream key iv 0 plain" "n = 16 + length plain" "err = None"
    by (auto simp: copyEncrypt_def copyStream_def copy_loop_ok aes_BlockSize_def reliable_def)
  obtain rest where rest: "reader_content src2 = Some rest" "ct = first @ rest"
    using assms(8) by auto
  have whole: "first @ rest = iv @ XORKeyStream key iv 0 plain" using rest(2) enc(1) by simp
  have iv: "take 16 first = iv"
    using arg_cong [OF whole, of "take 16"] assms(3,9) by simp
  have cipher: "drop 16 first @ rest = XORKeyStream key iv 0 plain"
    using arg_cong [OF whole, of "drop 16"] assms(3,9) by simp
  obtain src3 where read: "reader_Read 16 ((first, None) # src2) = (iv, None, src3)"
    and src3: "reader_content src3 = Some (XORKeyStream key iv 0 plain)"
    using iv cipher rest(1) assms(9) by (cases "length first > 16") auto
  have "copyDecrypt key ((first, None) # src2) wr2 = (plain, 16 + length plain, None)"
    using assms(1,3,6) read src3
    by (simp add: copyDecrypt_def aes_BlockSize_def copyStream_def copy_loop_ok)
  with enc assms(3) show ?thesis by simp
qed

text \<open>
  \<^verbatim>\<open>copyDecrypt\<close> takes its initial vector from a single \<^verbatim>\<open>Read\<close>. If that read is short, by
  \<open>16 - m\<close> bytes, decryption reports success all the same and writes \<open>16 - m\<close> bytes more than
  the plain text has: the rest of the initial vector is decrypted as if it were data.
\<close>

theorem copyDecrypt_short_first_read:
  assumes "aes_key_ok key" and "reliable wr" and "length first = m" and "0 < m" and "m < 16"
    and "reader_content ((first, None) # src) = Some (iv @ body)" and "length iv = 16"
  shows "\<exists>out. copyDecrypt key ((first, None) # src) wr = (out, 16 + length out, None) \<and>
    length out = length body + (16 - m)"
proof -
  obtain rest where rest: "reader_content src = Some rest" "iv @ body = first @ rest"
    using assms(6) by auto
  have "length rest = length body + (16 - m)"
    using arg_cong [OF rest(2), of length] assms(3,5,7) by simp
  then show ?thesis
    using assms(1-5) rest(1) by (simp add: copyDecrypt_def aes_BlockSize_def copyStream_def copy_loop_ok Let_def)
qed

subsection \<open>Examples\<close>

theorem generated_ids_and_keys_witness:
  "generateID [Data (replicate 20 7), Data (replicate 20 7)] \<noteq> generateID [Data (replicate 32 9)]"
proof -
  have "segments [Data (replicate 20 7), Data (replicate 20 7)] = Some (replicate 32 7 @ replicate 8 7)"
    "segments [Data (replicate 32 9)] = Some (replicate 32 9 @ [])"
    "length (replicate 32 (7 :: byte)) = 32" "length (replicate 32 (9 :: byte)) = 32"
    "replicate 32 (7 :: byte) \<noteq> replicate 32 9"
    by (simp_all add: eval_nat_numeral)
  with generated_ids_and_keys [of _ "[Data (replicate 20 7), Data (replicate 20 7)]" "replicate 32 7" "replicate 8 7"
      "[Data (replicate 32 9)]" "replicate 32 9" "[]"]
  show ?thesis by blast
qed

theorem copyEncrypt_copyDecrypt_witness:
  "\<exists>ct. copyEncrypt (replicate 32 1) [Data (replicate 16 2)] [([70, 111, 111], None)] (\<lambda>_ d. (length d, None)) =
      (ct, 19, None) \<and>
    copyDecrypt (replicate 32 1) [(ct, None)] (\<lambda>_ d. (length d, None)) = ([70, 111, 111], 19, None)"
proof -
  let ?wr = "\<lambda>_ d. (length d, None)"
  obtain ct n err where e:
    "copyEncrypt (replicate 32 1) [Data (replicate 16 2)] [([70, 111, 111], None)] ?wr = (ct, n, err)"
    using prod_cases3 by blast
  have k: "aes_key_ok (replicate 32 1)" "segments [Data (replicate 16 2)] = Some (replicate 16 2 @ [])"
    "length (replicate 16 (2 :: byte)) = 16" "reader_content [([70, 111, 111], None)] = Some [70, 111, 111]"
    "reliable ?wr"
    by (simp_all add: aes_key_ok_def reliable_def)
  have "ReadFull 16 [Data (replicate 16 2)] = (Inr (replicate 16 2), [])"
    by (simp add: eval_nat_numeral)
  with e have "16 \<le> length ct"
    by (auto simp: copyEncrypt_def aes_key_ok_def aes_BlockSize_def split: prod.splits)
  moreover have "reader_content [(ct, None)] = Some ct" by simp
  ultimately show ?thesis
    using copyEncrypt_copyDecrypt [OF k(1-5) k(5) e] e by fastforce
qed

theorem copyDecrypt_short_first_read_witness:
  "\<exists>out. copyDecrypt (replicate 16 1) [([1, 2, 3], None), (replicate 15 4, None)] (\<lambda>_ d. (length d, None)) =
      (out, 31, None) \<and> length out = 15"
proof -
  let ?wr = "\<lambda>_ d. (length d, None)"
  have k: "aes_key_ok (replicate 16 1)" "reliable ?wr" "length [1, 2, 3 :: byte] = 3" "0 < (3 :: nat)" "3 < (16 :: nat)"
    "reader_content [([1, 2, 3], None), (replicate 15 4, None)] = Some ([1, 2, 3, 4, 4, 4, 4, 4, 4, 4, 4, 4, 4, 4, 4, 4] @ [4, 4])"
    "length [1, 2, 3, 4, 4, 4, 4, 4, 4, 4, 4, 4, 4, 4, 4, 4 :: byte] = 16"
    by (simp_all add: aes_key_ok_def reliable_def eval_nat_numeral)
  from copyDecrypt_short_first_read [OF k] show ?thesis by auto
qed

end
