(* ===== verification/Peer_Addr.thy ===== *)
theory Peer_Addr
  imports Transport Go_IO
begin

section \<open>Addresses of peers (server.go, shared/functions.go)\<close>

text \<open>
  How a node learns and announces its own address and how it chooses among the addresses the
  tracker returns. A peer announces its public and its local address separated by a bar. The
  answer of the public-IP service and the addresses of the network interfaces are arguments.
\<close>

subsection \<open>Own addresses\<close>

text \<open>\<^verbatim>\<open>IP.String\<close> of an IPv4 address.\<close>

fun ip4_String :: "bytes \<Rightarrow> string" where
  "ip4_String [a, b, c, d] =
     show_nat (unat a) @ ''.'' @ show_nat (unat b) @ ''.'' @ show_nat (unat c) @ ''.'' @ show_nat (unat d)"
| "ip4_String _ = []"

text \<open>
  \<open>addrs\<close> is what \<^verbatim>\<open>net.InterfaceAddrs\<close> returns; \<open>None\<close> stands for an address that is not an
  \<^verbatim>\<open>IPNet\<close>.
\<close>

fun first_local :: "bytes option list \<Rightarrow> string option" where
  "first_local [] = None"
| "first_local (Some ip # as) =
     (if \<not> IsLoopback ip \<and> To4 ip \<noteq> None then Some (ip4_String (the (To4 ip))) else first_local as)"
| "first_local (None # as) = first_local as"

definition GetLocalIP :: "go_error + bytes option list \<Rightarrow> go_error + string" where
  "GetLocalIP addrs =
     (case addrs of
        Inl e \<Rightarrow> Inl e
      | Inr as \<Rightarrow>
          (case first_local as of
             Some s \<Rightarrow> Inr s
           | None \<Rightarrow> Inl (Errorf ''no local IP found'')))"

text \<open>The result of the request, and of reading the body.\<close>

definition GetPublicIP :: "go_error + go_error + string \<Rightarrow> go_error + string" where
  "GetPublicIP resp =
     (case resp of
        Inl e \<Rightarrow> Inl e
      | Inr (Inl e) \<Rightarrow> Inl e
      | Inr (Inr ip) \<Rightarrow> Inr ip)"

definition getPeerAddress ::
  "go_error + go_error + string \<Rightarrow> go_error + bytes option list \<Rightarrow> string \<Rightarrow> go_error + string" where
  "getPeerAddress resp addrs listenAddr =
     (case GetPublicIP resp of
        Inl e \<Rightarrow> Inl (Errorf (''failed to get public IP: '' @ Error e))
      | Inr publicIP \<Rightarrow>
          (case GetLocalIP addrs of
             Inl e \<Rightarrow> Inl (Errorf (''failed to get local IP: '' @ Error e))
           | Inr localIP \<Rightarrow>
               let port = (if HasPrefix listenAddr '':'' then drop 1 listenAddr else listenAddr)
               in Inr (publicIP @ '':'' @ port @ ''|'' @ localIP @ '':'' @ port)))"

subsection \<open>Choosing among the addresses of other peers\<close>

text \<open>Networks and masks of 10.0.0.0/8, 172.16.0.0/12 and 192.168.0.0/16.\<close>

definition privateCIDRs :: "(bytes \<times> bytes) list" where
  "privateCIDRs =
     [([10, 0, 0, 0], [255, 0, 0, 0]), ([172, 16, 0, 0], [255, 240, 0, 0]),
      ([192, 168, 0, 0], [255, 255, 0, 0])]"

definition isPrivateIP :: "bytes \<Rightarrow> bool" where
  "isPrivateIP ip = (list_ex (\<lambda>(net, msk). subnet_Contains net msk ip) privateCIDRs \<or> IsLoopback ip)"

definition is_public_addr :: "string \<Rightarrow> bool" where
  "is_public_addr addr =
     (case SplitHostPort addr of
        Inl e \<Rightarrow> False
      | Inr (host, _) \<Rightarrow>
          (case ParseIP host of None \<Rightarrow> False | Some ip \<Rightarrow> \<not> isPrivateIP ip))"

definition filterPeerList :: "string list \<Rightarrow> string list" where
  "filterPeerList peerList =
     (let filtered = filter is_public_addr (concat (map (Split (CHR ''|'')) peerList))
      in if length filtered = 0 then peerList else filtered)"

subsection \<open>Lemmas\<close>

lemma all_bytes:
  assumes "list_all P (map of_nat [0..<256])"
  shows "P (b :: byte)"
proof -
  have "\<forall>x < 256. P (of_nat x)" using assms by (simp add: list_all_iff)
  moreover have "unat b < 256" using unsigned_less [of b, where 'a = nat] by simp
  ultimately have "P (of_nat (unat b))" by blast
  then show "P b" by simp
qed

lemma mask_240: "and (16 :: byte) 240 = and b 240 \<longleftrightarrow> 16 \<le> b \<and> b < 32"
  by (rule all_bytes [where P = "\<lambda>b. and (16 :: byte) 240 = and b 240 \<longleftrightarrow> 16 \<le> b \<and> b < 32"]) code_simp

lemma mask_255 [simp]: "and (b :: byte) 255 = b"
  by (rule all_bytes [where P = "\<lambda>b :: byte. and b 255 = b"]) code_simp

lemma not_digit [simp]: "\<not> is_digit (CHR ''.'')" "\<not> is_digit (CHR '':'')" "\<not> is_digit (CHR ''|'')"
  "\<not> is_digit (CHR ''['')" "\<not> is_digit (CHR '']'')"
  by (simp_all add: is_digit_def)

lemma show_nat_no [simp]: "\<not> is_digit c \<Longrightarrow> c \<notin> set (show_nat n)"
  using show_nat_digits by blast

lemma ip4_String_chars:
  assumes "length ip = 4"
  shows "CHR '':'' \<notin> set (ip4_String ip)" "CHR ''|'' \<notin> set (ip4_String ip)"
    "CHR ''['' \<notin> set (ip4_String ip)" "CHR '']'' \<notin> set (ip4_String ip)"
  using assms by (auto simp: length_Suc_conv numeral_eq_Suc)

lemma ParseIP_ip4_String:
  assumes "length ip = 4"
  shows "ParseIP (ip4_String ip) = Some (v4_prefix @ ip)"
proof -
  obtain a b c d where ip: "ip = [a, b, c, d]"
    using assms by (auto simp: length_Suc_conv numeral_eq_Suc)
  have "dropWhile (\<lambda>c. c \<noteq> CHR ''.'' \<and> c \<noteq> CHR '':'' \<and> c \<noteq> CHR 0x25) (show_nat n @ CHR ''.'' # s) = CHR ''.'' # s" for n s
  proof -
    have "\<not> is_digit (CHR 0x25)" by (simp add: is_digit_def)
    then have "\<forall>c \<in> set (show_nat n). c \<noteq> CHR ''.'' \<and> c \<noteq> CHR '':'' \<and> c \<noteq> CHR 0x25"
      using show_nat_digits [of _ n] not_digit by metis
    then show ?thesis by (simp add: dropWhile_append2)
  qed
  moreover have "parse_ipv4 (ip4_String ip) = Some ip"
    by (simp add: ip parse_ipv4_def Split_append_sep Split_single parse_octet_show)
  ultimately show ?thesis by (simp add: ip ParseIP_def)
qed

lemma To4_v4 [simp]: "length ip = 4 \<Longrightarrow> To4 (v4_prefix @ ip) = Some ip"
  by (simp add: To4_def v4_prefix_def)

lemma isPrivateIP_v4:
  "isPrivateIP (v4_prefix @ [a, b, c, d]) \<longleftrightarrow>
     a = 10 \<or> (a = 172 \<and> 16 \<le> b \<and> b < 32) \<or> (a = 192 \<and> b = 168) \<or> a = 127"
  using mask_240 [of b]
  by (auto simp: isPrivateIP_def privateCIDRs_def subnet_Contains_def IsLoopback_def)

lemma is_public_addr_v4:
  assumes "length ip = 4" and "CHR '':'' \<notin> set port" "CHR ''['' \<notin> set port" "CHR '']'' \<notin> set port"
  shows "is_public_addr (ip4_String ip @ '':'' @ port) \<longleftrightarrow> \<not> isPrivateIP (v4_prefix @ ip)"
  using SplitHostPort_host_port [of "ip4_String ip" port] ip4_String_chars [OF assms(1)] assms
  by (simp add: is_public_addr_def ParseIP_ip4_String)

text \<open>
  Private addresses. An IPv4 address is treated as private exactly if it lies in 10/8,
  172.16/12, 192.168/16 or 127/8; of the other addresses only the IPv6 loopback is.
\<close>

theorem isPrivateIP_spec:
  "(isPrivateIP (v4_prefix @ [a, b, c, d]) \<longleftrightarrow>
     a = 10 \<or> (a = 172 \<and> 16 \<le> b \<and> b < 32) \<or> (a = 192 \<and> b = 168) \<or> a = 127) \<and>
   (To4 ip = None \<longrightarrow> (isPrivateIP ip \<longleftrightarrow> ip = replicate 15 0 @ [1]))"
proof
  show "isPrivateIP (v4_prefix @ [a, b, c, d]) \<longleftrightarrow>
     a = 10 \<or> (a = 172 \<and> 16 \<le> b \<and> b < 32) \<or> (a = 192 \<and> b = 168) \<or> a = 127"
    by (rule isPrivateIP_v4)
qed (simp add: isPrivateIP_def privateCIDRs_def subnet_Contains_def IsLoopback_def)

text \<open>
  Filtering the tracker's peer list. If any listed address is public, the result holds
  exactly the public addresses, each on its own and in the order listed, and none of them holds a
  bar; otherwise the list is returned unchanged.
\<close>

theorem filterPeerList_spec:
  "if \<exists>peer \<in> set peerList. \<exists>addr \<in> set (Split (CHR ''|'') peer). is_public_addr addr
   then filterPeerList peerList \<noteq> [] \<and>
     set (filterPeerList peerList) =
       {addr. is_public_addr addr \<and> (\<exists>peer \<in> set peerList. addr \<in> set (Split (CHR ''|'') peer))} \<and>
     (\<forall>addr \<in> set (filterPeerList peerList). CHR ''|'' \<notin> set addr)
   else filterPeerList peerList = peerList"
proof (cases "filter is_public_addr (concat (map (Split (CHR ''|'')) peerList)) = []")
  case True
  then show ?thesis by (auto simp: filterPeerList_def filter_empty_conv)
next
  case False
  then have "\<exists>peer \<in> set peerList. \<exists>addr \<in> set (Split (CHR ''|'') peer). is_public_addr addr"
    by (auto simp: filter_empty_conv)
  then show ?thesis using False by (auto simp: filterPeerList_def dest: Split_no_sep)
qed

lemma announced_split:
  assumes "length pub = 4" and "length loc = 4" and "CHR ''|'' \<notin> set q"
  shows "Split (CHR ''|'') (ip4_String pub @ '':'' @ q @ ''|'' @ ip4_String loc @ '':'' @ q) =
    [ip4_String pub @ '':'' @ q, ip4_String loc @ '':'' @ q]"
  using Split_append_sep [of "CHR ''|''" "ip4_String pub @ '':'' @ q"]
    Split_single [of "CHR ''|''" "ip4_String loc @ '':'' @ q"] assms(3)
    ip4_String_chars [OF assms(1)] ip4_String_chars [OF assms(2)] by simp

text \<open>
  C37: The announced address. A node that listens on \<^verbatim>\<open>:port\<close> announces its public and its local
  address, each of which splits back into the IP and the port; a downloader that filters the
  announcement keeps the public one alone.
\<close>

theorem getPeerAddress_port:
  assumes "length pub = 4" and "length loc = 4" and "\<forall>ch \<in> set port. ch \<notin> set '':|[]''"
    and "first_local as = Some (ip4_String loc)"
    and "\<not> isPrivateIP (v4_prefix @ pub)" and "isPrivateIP (v4_prefix @ loc)"
  shows "\<exists>a. getPeerAddress (Inr (Inr (ip4_String pub))) (Inr as) ('':'' @ port) = Inr a \<and>
    Split (CHR ''|'') a = [ip4_String pub @ '':'' @ port, ip4_String loc @ '':'' @ port] \<and>
    SplitHostPort (ip4_String pub @ '':'' @ port) = Inr (ip4_String pub, port) \<and>
    SplitHostPort (ip4_String loc @ '':'' @ port) = Inr (ip4_String loc, port) \<and>
    filterPeerList [a] = [ip4_String pub @ '':'' @ port]"
proof (intro exI conjI)
  let ?a = "ip4_String pub @ '':'' @ port @ ''|'' @ ip4_String loc @ '':'' @ port"
  have p: "CHR '':'' \<notin> set port" "CHR ''|'' \<notin> set port" "CHR ''['' \<notin> set port" "CHR '']'' \<notin> set port"
    using assms(3) by auto
  show "getPeerAddress (Inr (Inr (ip4_String pub))) (Inr as) ('':'' @ port) = Inr ?a"
    using assms(4) by (simp add: getPeerAddress_def GetPublicIP_def GetLocalIP_def HasPrefix_def)
  show split: "Split (CHR ''|'') ?a = [ip4_String pub @ '':'' @ port, ip4_String loc @ '':'' @ port]"
    by (rule announced_split [OF assms(1,2) p(2)])
  show "SplitHostPort (ip4_String pub @ '':'' @ port) = Inr (ip4_String pub, port)"
    "SplitHostPort (ip4_String loc @ '':'' @ port) = Inr (ip4_String loc, port)"
    using SplitHostPort_host_port p ip4_String_chars [OF assms(1)] ip4_String_chars [OF assms(2)] by blast+
  show "filterPeerList [?a] = [ip4_String pub @ '':'' @ port]"
    using split p assms(1,2,5,6) is_public_addr_v4 by (simp add: filterPeerList_def)
qed

text \<open>
  A listen address with a host. A node started with \<^verbatim>\<open>host:port\<close> announces two addresses with
  a colon too many: whoever dials the announcement gets an error for each of its parts.
\<close>

theorem getPeerAddress_host_rejected:
  assumes "length pub = 4" and "length loc = 4" and "\<forall>ch \<in> set port. ch \<notin> set '':|[]''"
    and "\<forall>ch \<in> set host. ch \<notin> set '':|[]''" and "host \<noteq> []"
    and "first_local as = Some (ip4_String loc)"
  shows "\<exists>a. getPeerAddress (Inr (Inr (ip4_String pub))) (Inr as) (host @ '':'' @ port) = Inr a \<and>
    (\<forall>t \<in> set (Split (CHR ''|'') a). \<exists>e. dial_target la t = Inl e)"
proof -
  let ?q = "host @ '':'' @ port"
  let ?a = "ip4_String pub @ '':'' @ ?q @ ''|'' @ ip4_String loc @ '':'' @ ?q"
  have p: "CHR '':'' \<notin> set port" "CHR '':'' \<notin> set host" "CHR ''['' \<notin> set host" "CHR ''|'' \<notin> set ?q"
    using assms(3,4) by auto
  have "\<not> HasPrefix ?q '':''" using assms(5) p(2) by (cases host) (auto simp: HasPrefix_def)
  then have addr: "getPeerAddress (Inr (Inr (ip4_String pub))) (Inr as) ?q = Inr ?a"
    using assms(6) by (simp add: getPeerAddress_def GetPublicIP_def GetLocalIP_def)
  have many: "SplitHostPort (ip4_String ip @ '':'' @ ?q) = Inl TooManyColons" if "length ip = 4" for ip
    using SplitHostPort_two_colons [of "ip4_String ip @ '':'' @ host" port] p ip4_String_chars [OF that]
    by simp
  have "\<exists>e. dial_target la t = Inl e" if "t \<in> set (Split (CHR ''|'') ?a)" for t
  proof -
    have "t = ip4_String pub @ '':'' @ ?q \<or> t = ip4_String loc @ '':'' @ ?q"
      using that announced_split [OF assms(1,2) p(4)] by simp
    with many assms(1,2) show ?thesis by (auto simp: dial_target_def)
  qed
  with addr show ?thesis by blast
qed

subsection \<open>Examples\<close>

lemma ip4_examples: "ip4_String [8, 8, 4, 4] = ''8.8.4.4''" "ip4_String [10, 0, 0, 2] = ''10.0.0.2''"
  "ip4_String [10, 0, 0, 3] = ''10.0.0.3''"
  "first_local [Some (v4_prefix @ [127, 0, 0, 1]), Some (v4_prefix @ [10, 0, 0, 2])] = Some ''10.0.0.2''"
  by code_simp+

theorem isPrivateIP_spec_witness:
  "isPrivateIP (v4_prefix @ [172, 20, 0, 1]) \<and> \<not> isPrivateIP (v4_prefix @ [172, 32, 0, 1]) \<and>
   isPrivateIP (replicate 15 0 @ [1])"
proof -
  have "To4 (replicate 15 0 @ [1]) = None" by code_simp
  with isPrivateIP_spec [of 172 20 0 1 "replicate 15 0 @ [1]"] isPrivateIP_spec [of 172 32 0 1 "[]"]
  show ?thesis by simp
qed

theorem filterPeerList_spec_witness:
  "set (filterPeerList [''8.8.4.4:3000|10.0.0.2:3000'', ''10.0.0.3:3000'']) = {''8.8.4.4:3000''}"
proof -
  have split: "Split (CHR ''|'') ''8.8.4.4:3000|10.0.0.2:3000'' = [''8.8.4.4:3000'', ''10.0.0.2:3000'']"
    "Split (CHR ''|'') ''10.0.0.3:3000'' = [''10.0.0.3:3000'']"
    by code_simp+
  have pub: "is_public_addr ''8.8.4.4:3000''" "\<not> is_public_addr ''10.0.0.2:3000''" "\<not> is_public_addr ''10.0.0.3:3000''"
    using is_public_addr_v4 [of "[8, 8, 4, 4]" "''3000''"] is_public_addr_v4 [of "[10, 0, 0, 2]" "''3000''"]
      is_public_addr_v4 [of "[10, 0, 0, 3]" "''3000''"]
    by (simp_all add: ip4_examples isPrivateIP_v4 del: ip4_String.simps)
  let ?l = "[''8.8.4.4:3000|10.0.0.2:3000'', ''10.0.0.3:3000'']"
  have ex: "\<exists>peer \<in> set ?l. \<exists>addr \<in> set (Split (CHR ''|'') peer). is_public_addr addr"
    unfolding list.set(2) split bex_simps(5) using pub(1) by blast
  have "set (filterPeerList ?l) =
      {addr. is_public_addr addr \<and> (\<exists>peer \<in> set ?l. addr \<in> set (Split (CHR ''|'') peer))}"
    using filterPeerList_spec [of ?l] ex by (simp only: if_True)
  also have "\<dots> = {''8.8.4.4:3000''}"
    using pub split by (auto simp del: Split.simps)
  finally show ?thesis .
qed

theorem getPeerAddress_port_witness:
  "\<exists>a. getPeerAddress (Inr (Inr ''8.8.4.4'')) (Inr [Some (v4_prefix @ [127, 0, 0, 1]), Some (v4_prefix @ [10, 0, 0, 2])])
      '':3000'' = Inr a \<and>
    filterPeerList [a] = [''8.8.4.4:3000'']"
proof -
  have "\<not> isPrivateIP (v4_prefix @ [8, 8, 4, 4])" "isPrivateIP (v4_prefix @ [10, 0, 0, 2])"
    by (simp_all add: isPrivateIP_v4)
  then show ?thesis
    using getPeerAddress_port [of "[8, 8, 4, 4]" "[10, 0, 0, 2]" "''3000''"
        "[Some (v4_prefix @ [127, 0, 0, 1]), Some (v4_prefix @ [10, 0, 0, 2])]"]
    by (auto simp del: first_local.simps ip4_String.simps simp: ip4_examples)
qed

theorem getPeerAddress_host_rejected_witness:
  "\<exists>a. getPeerAddress (Inr (Inr ''8.8.4.4'')) (Inr [Some (v4_prefix @ [127, 0, 0, 1]), Some (v4_prefix @ [10, 0, 0, 2])])
      ''localhost:3000'' = Inr a \<and>
    (\<forall>t \<in> set (Split (CHR ''|'') a). \<exists>e. dial_target '':4000'' t = Inl e)"
  using getPeerAddress_host_rejected [of "[8, 8, 4, 4]" "[10, 0, 0, 2]" "''3000''" "''localhost''"
      "[Some (v4_prefix @ [127, 0, 0, 1]), Some (v4_prefix @ [10, 0, 0, 2])]" "'':4000''"]
  by (auto simp del: first_local.simps ip4_String.simps simp: ip4_examples)

end
