(* ===== verification/File_Server.thy ===== *)
theory File_Server
  imports Store Peer_Addr Tracker
begin

section \<open>The file server (server.go, store.go)\<close>

text \<open>
  A node of the network: its connected peers, the files it seeds and the handlers waiting for
  chunk responses. Locks are left out: each operation below is what one goroutine does between
  acquiring and releasing them. What the node exchanges with other programs is explicit:
  \<^item> a peer is named by its remote address, and what is written to it is a result; a writer
    maps the number of a \<^verbatim>\<open>Write\<close> call and its bytes to the count and the error;
  \<^item> the gob and JSON codecs are parameters (\<open>enc\<close>, \<open>dec\<close>);
  \<^item> an HTTP answer is an error or a status and a body.
\<close>

subsection \<open>State\<close>

record FileServerOpts =
  so_ListenAddr :: string
  so_EncKey :: bytes
  so_StorageRoot :: string
  so_PathTransformFunc :: "(string \<Rightarrow> PathKey) option"
  so_TrackerAddr :: string
  so_BootstrapNodes :: "string list"

text \<open>
  A response handler is the closure \<^verbatim>\<open>downloadChunk\<close> registers: what it waits for, whether its
  \<^verbatim>\<open>done\<close> channel is closed, and its two channels of capacity one.
\<close>

record handler =
  h_fileID :: string
  h_chunkIndex :: int
  h_done :: bool
  h_responseChan :: "MessageChunkResponse option"
  h_errChan :: "go_error option"

record FileServer =
  sv_opts :: FileServerOpts
  sv_peers :: "string \<rightharpoonup> string"
  sv_store :: StoreOpts
  sv_quitch :: bool
  sv_responseHandlers :: "handler list"
  sv_activeFiles :: "string \<rightharpoonup> Metadata"

definition makeServer :: "string \<Rightarrow> string \<Rightarrow> FileServer \<times> TCPTransport" where
  "makeServer listenAddr bootstrapNode =
     (let opts = \<lparr>so_ListenAddr = listenAddr, so_EncKey = [], so_StorageRoot = ''shared_files'',
                  so_PathTransformFunc = Some DefaultPathTransformFunc, so_TrackerAddr = [],
                  so_BootstrapNodes = [bootstrapNode]\<rparr>
      in (\<lparr>sv_opts = opts, sv_peers = Map.empty,
           sv_store = NewStore \<lparr>Root = so_StorageRoot opts, PathTransformFunc = so_PathTransformFunc opts\<rparr>,
           sv_quitch = False, sv_responseHandlers = [], sv_activeFiles = Map.empty\<rparr>,
          NewTCPTransport listenAddr))"

definition SetTrackerAddress :: "string \<Rightarrow> FileServer \<Rightarrow> FileServer" where
  "SetTrackerAddress addr s = s\<lparr>sv_opts := (sv_opts s)\<lparr>so_TrackerAddr := addr\<rparr>\<rparr>"

definition onPeer :: "string \<Rightarrow> FileServer \<Rightarrow> FileServer \<times> go_error option" where
  "onPeer origAddr s = (s\<lparr>sv_peers := (sv_peers s)(NormalizeAddress origAddr \<mapsto> origAddr)\<rparr>, None)"

definition listPeers :: "string list \<Rightarrow> FileServer \<Rightarrow> string list" where
  "listPeers ord s = range_keys ord (sv_peers s)"

definition bootstrapNetwork :: "FileServer \<Rightarrow> string list" where
  "bootstrapNetwork s = filter (\<lambda>node. node \<noteq> []) (so_BootstrapNodes (sv_opts s))"

text \<open>\<^verbatim>\<open>Start\<close>: the transport, the nodes it dials and the error.\<close>

definition Start ::
  "(string \<Rightarrow> go_error option) \<Rightarrow> (int \<Rightarrow> go_error option) \<Rightarrow> FileServer \<times> TCPTransport \<Rightarrow>
   TCPTransport \<times> string list \<times> go_error option" where
  "Start listenTCP listenUDP st =
     (case st of (s, t) \<Rightarrow>
        (case ListenAndAccept listenTCP listenUDP t of
           (t', Some e) \<Rightarrow> (t', [], Some e)
         | (t', None) \<Rightarrow> (t', bootstrapNetwork s, None)))"

subsection \<open>Serving chunks\<close>

fun read_retry ::
  "(nat \<Rightarrow> faults) \<Rightarrow> filesystem \<Rightarrow> string \<Rightarrow> int \<Rightarrow> nat \<Rightarrow> nat \<Rightarrow> go_error option \<Rightarrow> (go_error + bytes) outcome" where
  "read_retry fls fs path chunk retries 0 err =
     Return (Inl (case err of None \<Rightarrow> Errorf [] | Some e \<Rightarrow> e))"
| "read_retry fls fs path chunk retries (Suc n) err =
     (case ReadChunk (fls retries) fs path chunk of
        Panic \<Rightarrow> Panic
      | Return (Inr data) \<Rightarrow> Return (Inr data)
      | Return (Inl e) \<Rightarrow> read_retry fls fs path chunk (Suc retries) n (Some e))"

text \<open>The transmission loop: pieces of one mebibyte, numbered from \<open>k\<close>.\<close>

definition maxChunkSize :: nat where
  "maxChunkSize = 1024 * 1024"

function write_pieces :: "(nat \<Rightarrow> writer) \<Rightarrow> nat \<Rightarrow> bytes \<Rightarrow> bytes \<times> go_error option" where
  "write_pieces wr k data =
     (if data = [] then ([], None)
      else
        let piece = take maxChunkSize data; (n, err) = wr k piece
        in case err of
             Some e \<Rightarrow> (take n piece, Some (Errorf (''failed to write payload: '' @ Error e)))
           | None \<Rightarrow>
               if n \<noteq> length piece then
                 (take n piece, Some (Errorf (''incomplete write: wrote '' @ show_nat n @ '' of '' @
                    show_nat (length piece) @ '' bytes'')))
               else
                 (case write_pieces wr (Suc k) (drop maxChunkSize data) of
                    (out, r) \<Rightarrow> (take n piece @ out, r)))"
  by pat_completeness auto
termination
  by (relation "measure (\<lambda>(wr, k, data). length data)") (auto simp: maxChunkSize_def neq_Nil_conv)

declare write_pieces.simps [simp del]

text \<open>
  What reaches the requesting peer, and the error. \<open>fls\<close> are the faults of each read attempt. The
  source looks the metadata up a second time after releasing the lock; the model uses the first
  lookup for both, so the nil pointer that results when the file is unshared in between is not here.
\<close>

definition handleChunkRequest ::
  "(Message \<Rightarrow> go_error + bytes) \<Rightarrow> (nat \<Rightarrow> faults) \<Rightarrow> filesystem \<Rightarrow> (nat \<Rightarrow> writer) \<Rightarrow>
   MessageChunkRequest \<Rightarrow> FileServer \<Rightarrow> (bytes \<times> go_error option) outcome" where
  "handleChunkRequest enc fls fs wr req s =
     (case sv_activeFiles s (rq_FileID req) of
        None \<Rightarrow> Return ([], Some (Errorf (''file '' @ rq_FileID req @ '' is not being actively seeded'')))
      | Some meta \<Rightarrow>
          if length (sv_responseHandlers s) \<ge> 5 then
            Return ([], Some (Errorf ''too many active chunk transfers''))
          else if rq_Chunk req \<ge> md_NumChunks meta then
            Return ([], Some (Errorf (''invalid chunk index '' @ show_int (rq_Chunk req) @
              '', file only has '' @ show_int (md_NumChunks meta) @ '' chunks'')))
          else
            (case read_retry fls fs (md_OriginalPath meta) (rq_Chunk req) 0 3 None of
               Panic \<Rightarrow> Panic
             | Return (Inl e) \<Rightarrow>
                 Return ([], Some (Errorf (''failed to read chunk after retries: '' @ Error e)))
             | Return (Inr chunkData) \<Rightarrow>
                 (case enc (NewChunkResponseMessage (rq_FileID req) (rq_Chunk req) chunkData) of
                    Inl e \<Rightarrow> Return ([], Some (Errorf (''failed to encode response: '' @ Error e)))
                  | Inr data \<Rightarrow>
                      let len = PutUint32 (of_nat (length data)); (n, err) = wr 0 len
                      in case err of
                           Some e \<Rightarrow>
                             Return (take n len, Some (Errorf (''failed to write message length: '' @ Error e)))
                         | None \<Rightarrow>
                             (case write_pieces wr 1 data of
                                (out, r) \<Rightarrow> Return (take n len @ out, r)))))"

definition handleMetadataRequest ::
  "faults \<Rightarrow> (bytes \<Rightarrow> go_error + Metadata) \<Rightarrow> (MessageMetadataResponse \<Rightarrow> go_error + bytes) \<Rightarrow> writer \<Rightarrow>
   MessageMetadataRequest \<Rightarrow> FileServer \<Rightarrow> filesystem \<Rightarrow> bytes \<times> go_error option" where
  "handleMetadataRequest fl dec enc wr req s fs =
     (case GetMetadata fl dec (Root (sv_store s)) (mq_FileID req) fs of
        Inl e \<Rightarrow> ([], Some e)
      | Inr meta \<Rightarrow>
          (case enc \<lparr>mr_Metadata = meta\<rparr> of
             Inl e \<Rightarrow> ([], Some e)
           | Inr buf \<Rightarrow> (case wr buf of (n, err) \<Rightarrow> (take n buf, err))))"

subsection \<open>Incoming messages\<close>

text \<open>The Go type of a payload, \<^verbatim>\<open>%T\<close>.\<close>

fun payload_type :: "payload \<Rightarrow> string" where
  "payload_type (ChunkRequest _) = ''p2p.MessageChunkRequest''"
| "payload_type (ChunkResponse _) = ''p2p.MessageChunkResponse''"
| "payload_type (MetadataRequest _) = ''p2p.MessageMetadataRequest''"
| "payload_type (MetadataResponse _) = ''p2p.MessageMetadataResponse''"
| "payload_type (OtherPayload ty) = ty"

definition run_handler :: "Message \<Rightarrow> handler \<Rightarrow> handler" where
  "run_handler msg h =
     (if h_done h then h
      else if msg_Type msg \<noteq> MessageTypeChunkResponse then h
      else
        (case msg_Payload msg of
           ChunkResponse resp \<Rightarrow>
             if rs_FileID resp \<noteq> h_fileID h \<or> rs_Chunk resp \<noteq> h_chunkIndex h then h
             else if h_responseChan h = None then h\<lparr>h_responseChan := Some resp\<rparr> else h
         | p \<Rightarrow>
             if h_errChan h = None
             then h\<lparr>h_errChan := Some (Errorf (''invalid payload type: '' @ payload_type p))\<rparr> else h))"

text \<open>The new state, what is written and to which peer, and the error.\<close>

definition handleRPCMessage ::
  "(bytes \<Rightarrow> go_error + Message) \<Rightarrow> (Message \<Rightarrow> go_error + bytes) \<Rightarrow> (nat \<Rightarrow> faults) \<Rightarrow> filesystem \<Rightarrow>
   (nat \<Rightarrow> writer) \<Rightarrow> RPC \<Rightarrow> FileServer \<Rightarrow> (FileServer \<times> (string \<times> bytes) option \<times> go_error option) outcome" where
  "handleRPCMessage dec enc fls fs wr rpc s =
     (case dec (rpc_Payload rpc) of
        Inl e \<Rightarrow> Return (s, None, Some (Errorf (''decode error: '' @ Error e)))
      | Inr msg \<Rightarrow>
          (case sv_peers s (NormalizeAddress (rpc_From rpc)) of
             None \<Rightarrow> Return (s, None, Some (Errorf (''unknown peer: '' @ rpc_From rpc)))
           | Some peer \<Rightarrow>
               if msg_Type msg = MessageTypeChunkRequest then
                 (case msg_Payload msg of
                    ChunkRequest req \<Rightarrow>
                      (case handleChunkRequest enc fls fs wr req s of
                         Panic \<Rightarrow> Panic
                       | Return (out, err) \<Rightarrow> Return (s, Some (peer, out), err))
                  | p \<Rightarrow>
                      Return (s, None,
                        Some (Errorf (''invalid chunk request payload type: '' @ payload_type p))))
               else if msg_Type msg = MessageTypeChunkResponse then
                 Return (s\<lparr>sv_responseHandlers := map (run_handler msg) (sv_responseHandlers s)\<rparr>, None, None)
               else Return (s, None, Some (Errorf (''unknown message type: '' @ msg_Type msg)))))"

text \<open>The loop over the RPC channel: an error is logged, a panic ends the process.\<close>

fun consumeRPCMessages ::
  "(bytes \<Rightarrow> go_error + Message) \<Rightarrow> (Message \<Rightarrow> go_error + bytes) \<Rightarrow> (nat \<Rightarrow> faults) \<Rightarrow> filesystem \<Rightarrow>
   (nat \<Rightarrow> writer) \<Rightarrow> RPC list \<Rightarrow> FileServer \<Rightarrow> (FileServer \<times> (string \<times> bytes) list) outcome" where
  "consumeRPCMessages dec enc fls fs wr [] s = Return (s, [])"
| "consumeRPCMessages dec enc fls fs wr (rpc # rpcs) s =
     (case handleRPCMessage dec enc fls fs wr rpc s of
        Panic \<Rightarrow> Panic
      | Return (s1, out, err) \<Rightarrow>
          (case consumeRPCMessages dec enc fls fs wr rpcs s1 of
             Panic \<Rightarrow> Panic
           | Return (s2, outs) \<Rightarrow> Return (s2, (case out of None \<Rightarrow> [] | Some x \<Rightarrow> [x]) @ outs)))"

text \<open>\<^verbatim>\<open>handleMessage\<close>, an older dispatcher that nothing calls.\<close>

definition handleMessage ::
  "(Message \<Rightarrow> go_error + bytes) \<Rightarrow> (MessageMetadataResponse \<Rightarrow> go_error + bytes) \<Rightarrow>
   (bytes \<Rightarrow> go_error + Metadata) \<Rightarrow> (nat \<Rightarrow> faults) \<Rightarrow> filesystem \<Rightarrow> (nat \<Rightarrow> writer) \<Rightarrow>
   Message \<Rightarrow> FileServer \<Rightarrow> (bytes \<times> go_error option) outcome" where
  "handleMessage enc encM decM fls fs wr msg s =
     (if msg_Type msg = ''chunk_request'' then
        (case msg_Payload msg of
           ChunkRequest req \<Rightarrow> handleChunkRequest enc fls fs wr req s
         | _ \<Rightarrow> Return ([], Some (Errorf ''invalid payload type for chunk_request'')))
      else if msg_Type msg = ''metadata_request'' then
        (case msg_Payload msg of
           MetadataRequest req \<Rightarrow> Return (handleMetadataRequest (fls 0) decM encM (wr 0) req s fs)
         | _ \<Rightarrow> Return ([], Some (Errorf ''invalid payload type for metadata_request'')))
      else Return ([], None))"

subsection \<open>Talking to the tracker\<close>

text \<open>One HTTP request: it cannot be built, cannot be sent, or is answered.\<close>

datatype http_result = RequestError go_error | DoError go_error | Status nat string

definition announcement_of :: "string \<Rightarrow> string \<Rightarrow> Metadata \<Rightarrow> announcement" where
  "announcement_of fileID peerAddr m =
     \<lparr>an_FileID = fileID, an_PeerAddr = peerAddr, an_Name = Base (md_OriginalPath m),
      an_Size = md_TotalSize m, an_Description = ''File shared via ForeverStore'',
      an_Categories = [''misc''], an_Extension = md_FileExtension m, an_NumChunks = md_NumChunks m,
      an_ChunkSize = md_ChunkSize m, an_ChunkHashes = md_ChunkHashes m, an_TotalHash = md_TotalHash m,
      an_TotalSize = md_TotalSize m\<rparr>"

text \<open>
  The retry loop: \<open>post k\<close> is what happens to attempt \<open>k\<close>. The result is the number of requests
  sent and the last error.
\<close>

fun announce_loop :: "(nat \<Rightarrow> http_result) \<Rightarrow> nat \<Rightarrow> nat \<Rightarrow> go_error option \<Rightarrow> nat \<times> go_error option" where
  "announce_loop post attempt 0 lastErr =
     (0, Some (Errorf (''failed to announce to tracker after 3 attempts: '' @
        (case lastErr of None \<Rightarrow> ''<nil>'' | Some e \<Rightarrow> Error e))))"
| "announce_loop post attempt (Suc n) lastErr =
     (case post attempt of
        RequestError e \<Rightarrow>
          announce_loop post (Suc attempt) n (Some (Errorf (''failed to create request: '' @ Error e)))
      | DoError e \<Rightarrow>
          (case announce_loop post (Suc attempt) n (Some e) of (k, r) \<Rightarrow> (Suc k, r))
      | Status code body \<Rightarrow>
          if code \<noteq> 200 then
            (case announce_loop post (Suc attempt) n
                (Some (Errorf (''tracker returned status '' @ show_nat code @ '': '' @ body))) of
               (k, r) \<Rightarrow> (Suc k, r))
          else (1, None))"

text \<open>\<open>env\<close> is what the public-IP service and the network interfaces answer.\<close>

type_synonym net_env = "(go_error + go_error + string) \<times> (go_error + bytes option list)"

definition announceToTracker ::
  "net_env \<Rightarrow> (nat \<Rightarrow> http_result) \<Rightarrow> string \<Rightarrow> string \<Rightarrow> Metadata \<Rightarrow> announcement list \<times> go_error option" where
  "announceToTracker env post fileID listenAddr m =
     (case getPeerAddress (fst env) (snd env) listenAddr of
        Inl e \<Rightarrow> ([], Some (Errorf (''failed to determine peer address: '' @ Error e)))
      | Inr peerAddr \<Rightarrow>
          (case announce_loop post 0 3 None of
             (k, r) \<Rightarrow> (replicate k (announcement_of fileID peerAddr m), r)))"

definition info_to_meta :: "FileInfo \<Rightarrow> Metadata" where
  "info_to_meta i =
     \<lparr>md_FileID = fi_FileID i, md_NumChunks = fi_NumChunks i, md_ChunkSize = fi_ChunkSize i,
      md_FileExtension = fi_Extension i, md_OriginalPath = [], md_ChunkHashes = fi_ChunkHashes i,
      md_TotalHash = fi_TotalHash i, md_TotalSize = fi_TotalSize i\<rparr>"

definition getMetadataFromTracker ::
  "(string \<Rightarrow> go_error + FileInfo) \<Rightarrow> go_error + nat \<times> string \<Rightarrow> go_error + Metadata" where
  "getMetadataFromTracker dec resp =
     (case resp of
        Inl e \<Rightarrow> Inl (Errorf (''failed to get metadata from tracker: '' @ Error e))
      | Inr (code, body) \<Rightarrow>
          if code \<noteq> 200 then Inl (Errorf (''tracker returned error: '' @ body))
          else (case dec body of
                  Inl e \<Rightarrow> Inl (Errorf (''failed to decode metadata: '' @ Error e))
                | Inr i \<Rightarrow> Inr (info_to_meta i)))"

subsection \<open>Connecting to the peers of a file\<close>

definition own_addr :: "FileServer \<Rightarrow> string" where
  "own_addr s =
     (let myAddr = so_ListenAddr (sv_opts s)
      in if HasPrefix myAddr '':'' then ''localhost'' @ myAddr else myAddr)"

text \<open>
  The addresses for which a dialling goroutine is started, numbered in the order of the loop.
  \<open>seen k\<close> is the peer table when the loop looks up its \<open>k\<close>-th address; the goroutines started before
  are already dialling, so it may have grown since the loop began.
\<close>

definition dial_targets :: "FileServer \<Rightarrow> (nat \<Rightarrow> string \<rightharpoonup> string) \<Rightarrow> string list \<Rightarrow> (nat \<times> string) list" where
  "dial_targets s seen peerList =
     filter (\<lambda>(k, addr). addr \<noteq> own_addr s \<and> seen k addr = None)
       (enumerate 0 (concat (map (Split (CHR ''|'')) (filterPeerList peerList))))"

text \<open>
  \<open>resp\<close> is the tracker's answer, \<open>seen\<close> as above, \<open>dial k\<close> the result of dialling address \<open>k\<close>,
  \<open>later k\<close> the peer table when its goroutine looks at it again, one second later, and \<open>after\<close> the
  table at the end. The result is the state, the addresses dialled and the error.
\<close>

definition connectToAllPeers ::
  "(string \<Rightarrow> go_error + string list) \<Rightarrow> go_error + nat \<times> string \<Rightarrow> (nat \<Rightarrow> string \<rightharpoonup> string) \<Rightarrow>
   (nat \<Rightarrow> go_error option) \<Rightarrow> (nat \<Rightarrow> string \<rightharpoonup> string) \<Rightarrow> (string \<rightharpoonup> string) \<Rightarrow> string \<Rightarrow> FileServer \<Rightarrow>
   FileServer \<times> string list \<times> go_error option" where
  "connectToAllPeers dec resp seen dial later after fileID s =
     (case resp of
        Inl e \<Rightarrow> (s, [], Some (Errorf (''failed to get peers from tracker: '' @ Error e)))
      | Inr (code, body) \<Rightarrow>
          if code \<noteq> 200 then (s, [], Some (Errorf (''tracker returned error: '' @ body)))
          else
            (case dec body of
               Inl e \<Rightarrow> (s, [], Some (Errorf (''failed to decode peer list: '' @ Error e)))
             | Inr peerList \<Rightarrow>
                 if length peerList = 0 then
                   (s, [], Some (Errorf (''no peers are currently sharing file '' @ fileID)))
                 else
                   let targets = dial_targets s seen peerList;
                       made = length (filter (\<lambda>(k, addr). dial k = None \<and> later k addr \<noteq> None) targets)
                   in (s\<lparr>sv_peers := after\<rparr>, map snd targets,
                       if made = 0 then Some (Errorf ''failed to establish any peer connections'')
                       else None)))"

definition refreshPeers ::
  "(string \<Rightarrow> go_error + string list) \<Rightarrow> go_error + nat \<times> string \<Rightarrow> (nat \<Rightarrow> string \<rightharpoonup> string) \<Rightarrow>
   (nat \<Rightarrow> go_error option) \<Rightarrow> (nat \<Rightarrow> string \<rightharpoonup> string) \<Rightarrow> (string \<rightharpoonup> string) \<Rightarrow> string \<Rightarrow> FileServer \<Rightarrow>
   FileServer \<times> string list \<times> go_error option" where
  "refreshPeers = connectToAllPeers"

subsection \<open>Sharing and unsharing\<close>

definition generateFileID :: "faults \<Rightarrow> filesystem \<Rightarrow> string \<Rightarrow> go_error + string" where
  "generateFileID fl fs filePath =
     (case os_Open fl fs filePath of
        Inl e \<Rightarrow> Inl e
      | Inr content \<Rightarrow>
          (case copy_fault fl filePath of
             Some e \<Rightarrow> Inl e
           | None \<Rightarrow> Inr (EncodeToString (sha1 content))))"

definition shared_metadata :: "string \<Rightarrow> string \<Rightarrow> string list \<Rightarrow> string \<Rightarrow> int \<Rightarrow> Metadata" where
  "shared_metadata fileID filePath chunkHashes totalHash totalSize =
     \<lparr>md_FileID = fileID, md_NumChunks = int (length chunkHashes), md_ChunkSize = ChunkSize,
      md_FileExtension = Ext filePath, md_OriginalPath = filePath, md_ChunkHashes = chunkHashes,
      md_TotalHash = totalHash, md_TotalSize = totalSize\<rparr>"

text \<open>The file system, the state, the announcements sent to the tracker, and the error.\<close>

definition ShareFile ::
  "faults \<Rightarrow> (Metadata \<Rightarrow> bytes) \<Rightarrow> net_env \<Rightarrow> (nat \<Rightarrow> http_result) \<Rightarrow> string \<Rightarrow> filesystem \<Rightarrow> FileServer \<Rightarrow>
   (filesystem \<times> FileServer \<times> announcement list \<times> go_error option) outcome" where
  "ShareFile fl enc env post filePath fs s =
     (case generateFileID fl fs filePath of
        Inl e \<Rightarrow> Return (fs, s, [], Some (Errorf (''failed to generate file ID: '' @ Error e)))
      | Inr fileID \<Rightarrow>
          (case generateFileHashes fl fs filePath ChunkSize of
             Panic \<Rightarrow> Panic
           | Return (Inl e) \<Rightarrow>
               Return (fs, s, [], Some (Errorf (''failed to generate hashes: '' @ Error e)))
           | Return (Inr (chunkHashes, totalHash, totalSize)) \<Rightarrow>
               let meta = shared_metadata fileID filePath chunkHashes totalHash totalSize
               in case saveMetadata fl enc (Root (sv_store s)) meta fs of
                    (fs', Some e) \<Rightarrow>
                      Return (fs', s, [], Some (Errorf (''failed to save metadata: '' @ Error e)))
                  | (fs', None) \<Rightarrow>
                      let s' = s\<lparr>sv_activeFiles := (sv_activeFiles s)(fileID \<mapsto> meta)\<rparr>;
                          sent = (if so_TrackerAddr (sv_opts s) \<noteq> []
                                  then fst (announceToTracker env post fileID (so_ListenAddr (sv_opts s)) meta)
                                  else [])
                      in Return (fs', s', sent, None)))"

text \<open>
  One tick of the goroutine that re-announces a file (in \<^verbatim>\<open>ShareFile\<close> and
  \<^verbatim>\<open>startTrackerAnnouncements\<close>): whether it goes on, and what it sends. When the quit channel is
  closed, both cases of its \<^verbatim>\<open>select\<close> are ready and either may be taken; \<open>quit\<close> says which.
\<close>

definition announce_tick ::
  "bool \<Rightarrow> net_env \<Rightarrow> (nat \<Rightarrow> http_result) \<Rightarrow> string \<Rightarrow> FileServer \<Rightarrow> bool \<times> announcement list" where
  "announce_tick quit env post fileID s =
     (if sv_quitch s \<and> quit then (False, [])
      else
        (case sv_activeFiles s fileID of
           None \<Rightarrow> (False, [])
         | Some meta \<Rightarrow>
             (True, fst (announceToTracker env post fileID (so_ListenAddr (sv_opts s)) meta))))"

text \<open>The files for which \<^verbatim>\<open>startTrackerAnnouncements\<close> starts such a goroutine.\<close>

definition startTrackerAnnouncements :: "string list \<Rightarrow> FileServer \<Rightarrow> string list" where
  "startTrackerAnnouncements ord s =
     (if so_TrackerAddr (sv_opts s) = [] then [] else range_keys ord (sv_activeFiles s))"

definition StopSeedingFile ::
  "net_env \<Rightarrow> http_result \<Rightarrow> string \<Rightarrow> FileServer \<Rightarrow> FileServer \<times> removal option \<times> go_error option" where
  "StopSeedingFile env post fileID s =
     (let s' = s\<lparr>sv_activeFiles := (sv_activeFiles s)(fileID := None)\<rparr>
      in if so_TrackerAddr (sv_opts s) = [] then
           (s', None, Some (Errorf ''no tracker address configured''))
         else
           (case getPeerAddress (fst env) (snd env) (so_ListenAddr (sv_opts s)) of
              Inl e \<Rightarrow> (s', None, Some (Errorf (''failed to get peer address: '' @ Error e)))
            | Inr peerAddr \<Rightarrow>
                let rm = \<lparr>rm_FileID = fileID, rm_PeerAddr = peerAddr\<rparr>
                in case post of
                     RequestError e \<Rightarrow> (s', None, Some (Errorf (''failed to notify tracker: '' @ Error e)))
                   | DoError e \<Rightarrow> (s', Some rm, Some (Errorf (''failed to notify tracker: '' @ Error e)))
                   | Status code body \<Rightarrow>
                       (s', Some rm,
                        if code \<noteq> 200
                        then Some (Errorf (''tracker returned error status: '' @ show_nat code)) else None)))"

fun stop_all :: "net_env \<Rightarrow> (nat \<Rightarrow> http_result) \<Rightarrow> nat \<Rightarrow> string list \<Rightarrow> FileServer \<Rightarrow> FileServer \<times> removal list" where
  "stop_all env post k [] s = (s, [])"
| "stop_all env post k (f # files) s =
     (case StopSeedingFile env (post k) f s of
        (s1, rm, _) \<Rightarrow>
          (case stop_all env post (Suc k) files s1 of
             (s2, rms) \<Rightarrow> (s2, (case rm of None \<Rightarrow> rms | Some r \<Rightarrow> r # rms))))"

text \<open>Closing the quit channel a second time panics.\<close>

definition Cleanup ::
  "net_env \<Rightarrow> (nat \<Rightarrow> http_result) \<Rightarrow> string list \<Rightarrow> FileServer \<Rightarrow> (FileServer \<times> removal list) outcome" where
  "Cleanup env post ord s =
     (case stop_all env post 0 (range_keys ord (sv_activeFiles s)) s of
        (s', rms) \<Rightarrow> if sv_quitch s' then Panic else Return (s'\<lparr>sv_quitch := True\<rparr>, rms))"

definition verifyDownloadedFile :: "faults \<Rightarrow> filesystem \<Rightarrow> string \<Rightarrow> string \<Rightarrow> go_error option" where
  "verifyDownloadedFile fl fs filePath expectedHash =
     (case os_Open fl fs filePath of
        Inl e \<Rightarrow> Some (Errorf (''failed to open downloaded file: '' @ Error e))
      | Inr content \<Rightarrow>
          (case copy_fault fl filePath of
             Some e \<Rightarrow> Some (Errorf (''failed to calculate file hash: '' @ Error e))
           | None \<Rightarrow>
               if EncodeToString (sha1 content) \<noteq> expectedHash
               then Some (Errorf ''file verification failed: hash mismatch'') else None))"

subsection \<open>Serving a chunk\<close>

lemma write_pieces_reliable: "reliable wr \<Longrightarrow> write_pieces wr k data = (data, None)"
proof (induction "length data" arbitrary: k data rule: less_induct)
  case less
  show ?case
  proof (cases "data = []")
    case True
    then show ?thesis by (subst write_pieces.simps) simp
  next
    case False
    have "length (drop maxChunkSize data) < length data"
      using False by (simp add: maxChunkSize_def neq_Nil_conv)
    with less False show ?thesis
      by (subst write_pieces.simps) (simp add: reliable_def Let_def)
  qed
qed

lemma write_pieces_step:
  assumes "data \<noteq> []" and "wr k (take maxChunkSize data) = (n, None)" and "n = length (take maxChunkSize data)"
  shows "write_pieces wr k data =
    (take maxChunkSize data @ fst (write_pieces wr (Suc k) (drop maxChunkSize data)),
     snd (write_pieces wr (Suc k) (drop maxChunkSize data)))"
  using assms by (subst write_pieces.simps) (simp add: case_prod_unfold min_def)

lemma write_pieces_error:
  assumes "data \<noteq> []" and "wr k (take maxChunkSize data) = (n, Some e)"
  shows "snd (write_pieces wr k data) \<noteq> None"
  using assms by (subst write_pieces.simps) simp

lemma write_pieces_honest:
  assumes "honest wr" and "snd (write_pieces wr k data) = None"
  shows "fst (write_pieces wr k data) = data"
  using assms(2)
proof (induction "length data" arbitrary: k data rule: less_induct)
  case less
  obtain n err where w: "wr k (take maxChunkSize data) = (n, err)" by fastforce
  show ?case
  proof (cases "data = []")
    case False
    then have "err = None" using write_pieces_error [of data wr k n] w less.prems by (cases err) auto
    moreover from this have "n = length (take maxChunkSize data)"
      using assms(1) w unfolding honest_def by (metis fst_conv snd_conv)
    ultimately have step: "write_pieces wr k data =
        (take maxChunkSize data @ fst (write_pieces wr (Suc k) (drop maxChunkSize data)),
         snd (write_pieces wr (Suc k) (drop maxChunkSize data)))"
      using write_pieces_step [OF False] w by blast
    have "length (drop maxChunkSize data) < length data"
      using False by (simp add: maxChunkSize_def neq_Nil_conv)
    then have "fst (write_pieces wr (Suc k) (drop maxChunkSize data)) = drop maxChunkSize data"
      using less.hyps less.prems step by simp
    then show ?thesis by (simp add: step)
  qed (simp add: write_pieces.simps)
qed

lemma read_retry_block:
  assumes "\<And>k path. readat_fault (fls k) path = None" and "fs path = Some content"
    and "length content < 2 ^ 62" and "i * 16777216 < length content"
  shows "read_retry fls fs path (int i) k n err = Return (Inr data) \<Longrightarrow> data = block 16777216 content i"
proof (induction n arbitrary: k err)
  case (Suc n)
  show ?case
  proof (cases "open_fault (fls k) path = None \<and> stat_fault (fls k) path = None")
    case True
    then have "ReadChunk (fls k) fs path (int i) = Return (Inr (block 16777216 content i))"
      using assms by (intro ReadChunk_block) simp_all
    with Suc.prems show ?thesis by simp
  next
    case False
    then have "\<exists>e. ReadChunk (fls k) fs path (int i) = Return (Inl e)"
      using assms(2) by (auto simp: ReadChunk_def os_Open_def split: option.splits)
    with Suc show ?thesis by auto
  qed
qed (simp split: option.splits)

lemma read_retry_first:
  "ReadChunk (fls k) fs path i = Return (Inr data) \<Longrightarrow> read_retry fls fs path i k (Suc n) err = Return (Inr data)"
  by simp

lemma handleChunkRequest_writes:
  assumes "sv_activeFiles s (rq_FileID req) = Some meta" and "length (sv_responseHandlers s) < 5"
    and "rq_Chunk req < md_NumChunks meta"
    and "read_retry fls fs (md_OriginalPath meta) (rq_Chunk req) 0 3 None = Return (Inr chunkData)"
    and "enc (NewChunkResponseMessage (rq_FileID req) (rq_Chunk req) chunkData) = Inr data"
    and "reliable wr"
  shows "handleChunkRequest enc fls fs wr req s = Return (frame data, None)"
proof -
  have "wr 0 l = (length l, None)" for l using assms(6) by (simp add: reliable_def)
  with assms(1-5) write_pieces_reliable [OF assms(6)] show ?thesis
    by (simp add: handleChunkRequest_def frame_def Let_def)
qed

text \<open>Conversely, a request that is answered without an error was answered with a whole frame.\<close>

lemma handleChunkRequest_sent:
  assumes "handleChunkRequest enc fls fs wr req s = Return (out, None)" and "honest wr"
  shows "\<exists>meta chunkData data. sv_activeFiles s (rq_FileID req) = Some meta \<and> rq_Chunk req < md_NumChunks meta \<and>
    read_retry fls fs (md_OriginalPath meta) (rq_Chunk req) 0 3 None = Return (Inr chunkData) \<and>
    enc (NewChunkResponseMessage (rq_FileID req) (rq_Chunk req) chunkData) = Inr data \<and> out = frame data"
proof -
  from assms(1) obtain meta chunkData data where c: "sv_activeFiles s (rq_FileID req) = Some meta"
    "rq_Chunk req < md_NumChunks meta" "length (sv_responseHandlers s) < 5"
    "read_retry fls fs (md_OriginalPath meta) (rq_Chunk req) 0 3 None = Return (Inr chunkData)"
    "enc (NewChunkResponseMessage (rq_FileID req) (rq_Chunk req) chunkData) = Inr data"
    unfolding handleChunkRequest_def by (auto split: option.splits if_splits outcome.splits sum.splits)
  let ?len = "PutUint32 (of_nat (length data))"
  obtain n err where w: "wr 0 ?len = (n, err)" by fastforce
  have "err = None" "snd (write_pieces wr 1 data) = None" "out = take n ?len @ fst (write_pieces wr 1 data)"
    using assms(1) c w by (auto simp: handleChunkRequest_def case_prod_unfold Let_def split: option.splits)
  moreover from this have "n = length ?len" using assms(2) w unfolding honest_def by (metis fst_conv snd_conv)
  ultimately have "out = frame data" using write_pieces_honest [OF assms(2)] by (simp add: frame_def)
  with c show ?thesis by blast
qed

text \<open>
  Requests that are refused. A file that is not seeded, an index past the last chunk, or
  five or more registered response handlers make the seeder return an error without writing a
  byte to the peer; a request for any chunk leaves the seeder's state as it was.
\<close>

theorem handleChunkRequest_refuses:
  assumes "sv_activeFiles s (rq_FileID req) = None \<or> length (sv_responseHandlers s) \<ge> 5 \<or>
    (\<exists>meta. sv_activeFiles s (rq_FileID req) = Some meta \<and> rq_Chunk req \<ge> md_NumChunks meta)"
  shows "\<exists>e. handleChunkRequest enc fls fs wr req s = Return ([], Some e)"
  using assms by (auto simp: handleChunkRequest_def split: option.splits)

text \<open>A response reaches every handler that waits for it.\<close>

definition waits_for :: "string \<Rightarrow> int \<Rightarrow> handler \<Rightarrow> bool" where
  "waits_for fileID i h \<longleftrightarrow>
     \<not> h_done h \<and> h_fileID h = fileID \<and> h_chunkIndex h = i \<and> h_responseChan h = None"

lemma run_handler_response:
  "run_handler (NewChunkResponseMessage fileID i data) h =
     (if waits_for fileID i h
      then h\<lparr>h_responseChan := Some \<lparr>rs_FileID = fileID, rs_Chunk = i, rs_Data = data\<rparr>\<rparr> else h)"
  by (auto simp: run_handler_def NewChunkResponseMessage_def waits_for_def)

text \<open>
  C5: One chunk, end to end. A seeder that shares the file at hand answers a request for chunk
  \<open>i\<close> with bytes that the downloader's decoder turns back into one message, however the network
  segments them; handling that message hands block \<open>i\<close> of the file to every response handler
  that waits for this chunk and changes nothing else.
\<close>

theorem chunk_transfer:
  assumes "sv_activeFiles s fileID = Some meta" and "length (sv_responseHandlers s) < 5"
    and "fs (md_OriginalPath meta) = Some content" and "length content < 2 ^ 62"
    and "open_fault (fls 0) (md_OriginalPath meta) = None" "stat_fault (fls 0) (md_OriginalPath meta) = None"
      "readat_fault (fls 0) (md_OriginalPath meta) = None"
    and "md_NumChunks meta = int (num_chunks 16777216 (length content))" and "int i < md_NumChunks meta"
    and "msg = NewChunkResponseMessage fileID (int i) (block 16777216 content i)"
    and "enc msg = Inr data" and "dec data = Inr msg" and "data \<noteq> []" and "length data \<le> maxMessageSize"
    and "reliable wr" and "segments c = Some (out @ rest)" and "sv_peers d (NormalizeAddress seeder) = Some seeder"
    and "handleChunkRequest enc fls fs wr \<lparr>rq_FileID = fileID, rq_Chunk = int i\<rparr> s = Return (out, err)"
  shows "err = None \<and>
    (\<exists>c'. DefaultDecoder_Decode c = (Inr data, c') \<and> segments c' = Some rest) \<and>
    handleRPCMessage dec enc' fls' fs' wr' \<lparr>rpc_From = seeder, rpc_Payload = data, rpc_Stream = False\<rparr> d =
      Return (d\<lparr>sv_responseHandlers := map (\<lambda>h. if waits_for fileID (int i) h
        then h\<lparr>h_responseChan := Some \<lparr>rs_FileID = fileID, rs_Chunk = int i, rs_Data = block 16777216 content i\<rparr>\<rparr>
        else h) (sv_responseHandlers d)\<rparr>, None, None)"
proof -
  have "i * 16777216 < length content"
    using assms(8,9) num_chunks_less [of 16777216 i "length content"] by simp
  then have "ReadChunk (fls 0) fs (md_OriginalPath meta) (int i) = Return (Inr (block 16777216 content i))"
    using assms(3-7) by (intro ReadChunk_block)
  then have "read_retry fls fs (md_OriginalPath meta) (int i) 0 3 None = Return (Inr (block 16777216 content i))"
    by (simp add: numeral_3_eq_3)
  then have "handleChunkRequest enc fls fs wr \<lparr>rq_FileID = fileID, rq_Chunk = int i\<rparr> s = Return (frame data, None)"
    using assms(1,2,9-11,15) by (intro handleChunkRequest_writes) simp_all
  then have out: "out = frame data" "err = None" using assms(18) by simp_all
  have "\<exists>c'. DefaultDecoder_Decode c = (Inr data, c') \<and> segments c' = Some rest"
    using wire.recv_put [of data c rest] assms(13,14,16) out by simp
  moreover have "handleRPCMessage dec enc' fls' fs' wr' \<lparr>rpc_From = seeder, rpc_Payload = data, rpc_Stream = False\<rparr> d =
      Return (d\<lparr>sv_responseHandlers := map (run_handler msg) (sv_responseHandlers d)\<rparr>, None, None)"
    using assms(10,12,17)
    by (simp add: handleRPCMessage_def NewChunkResponseMessage_def MessageTypeChunkRequest_def
        MessageTypeChunkResponse_def)
  ultimately show ?thesis using out(2) by (simp add: assms(10) run_handler_response)
qed

subsection \<open>The node as a state machine\<close>

text \<open>
  The parts of \<^verbatim>\<open>downloadChunk\<close> that touch the shared state: registering a response handler,
  receiving from its channel, closing its \<^verbatim>\<open>done\<close> channel, forgetting a failed peer.
\<close>

definition register_handler :: "string \<Rightarrow> int \<Rightarrow> FileServer \<Rightarrow> FileServer" where
  "register_handler fileID chunkIndex s =
     s\<lparr>sv_responseHandlers := sv_responseHandlers s @
        [\<lparr>h_fileID = fileID, h_chunkIndex = chunkIndex, h_done = False, h_responseChan = None,
          h_errChan = None\<rparr>]\<rparr>"

definition receive_response :: "nat \<Rightarrow> FileServer \<Rightarrow> FileServer" where
  "receive_response k s =
     s\<lparr>sv_responseHandlers := (sv_responseHandlers s)
        [k := (sv_responseHandlers s ! k)\<lparr>h_responseChan := None\<rparr>]\<rparr>"

definition close_done :: "nat \<Rightarrow> FileServer \<Rightarrow> FileServer" where
  "close_done k s =
     s\<lparr>sv_responseHandlers := (sv_responseHandlers s)
        [k := (sv_responseHandlers s ! k)\<lparr>h_done := True\<rparr>]\<rparr>"

definition delete_peer :: "string \<Rightarrow> FileServer \<Rightarrow> FileServer" where
  "delete_peer remoteAddr s = s\<lparr>sv_peers := (sv_peers s)(remoteAddr := None)\<rparr>"

text \<open>
  The steps other nodes and the node's own downloads cause. While the node connects to peers,
  \<^verbatim>\<open>onPeer\<close> runs for some of them.
\<close>

inductive network_step :: "FileServer \<Rightarrow> FileServer \<Rightarrow> bool" where
  peer: "network_step s (fst (onPeer addr s))"
| forget: "network_step s (delete_peer addr s)"
| rpc: "handleRPCMessage dec enc fls fs wr rpc s = Return (s', out, err) \<Longrightarrow> network_step s s'"
| register: "network_step s (register_handler fileID i s)"
| receive: "network_step s (receive_response k s)"
| finish: "network_step s (close_done k s)"
| connect: "after = fold (\<lambda>a m. m(NormalizeAddress a \<mapsto> a)) addrs (sv_peers s) \<Longrightarrow>
    network_step s (fst (connectToAllPeers dec resp seen dial later after fileID s))"

text \<open>Everything that changes a node except sharing a file, and everything that changes it.\<close>

inductive quiet_step :: "FileServer \<Rightarrow> FileServer \<Rightarrow> bool" where
  network: "network_step s s' \<Longrightarrow> quiet_step s s'"
| stop: "quiet_step s (fst (StopSeedingFile env post fileID s))"
| tracker: "quiet_step s (SetTrackerAddress addr s)"
| cleanup: "Cleanup env post ord s = Return (s', rms) \<Longrightarrow> quiet_step s s'"

inductive server_step :: "FileServer \<Rightarrow> FileServer \<Rightarrow> bool" where
  quiet: "quiet_step s s' \<Longrightarrow> server_step s s'"
| share: "ShareFile fl enc env post path fs s = Return (fs', s', sent, err) \<Longrightarrow> server_step s s'"

inductive_cases network_stepE: "network_step s s'"
inductive_cases quiet_stepE: "quiet_step s s'"
inductive_cases server_stepE: "server_step s s'"

text \<open>A run of a node with the history of its \<^verbatim>\<open>ShareFile\<close> calls: the path and the disk it was read from.\<close>

inductive server_run :: "FileServer \<Rightarrow> (string \<times> filesystem) list \<Rightarrow> FileServer \<Rightarrow> bool" for s0 :: FileServer where
  run_start: "server_run s0 [] s0"
| run_quiet: "server_run s0 hist s \<Longrightarrow> quiet_step s s' \<Longrightarrow> server_run s0 hist s'"
| run_share: "server_run s0 hist s \<Longrightarrow> ShareFile fl enc env post path fs s = Return (fs', s', sent, err) \<Longrightarrow>
    server_run s0 ((path, fs) # hist) s'"

text \<open>What never changes without the operation that is meant to change it.\<close>

lemma handlers_StopSeedingFile [simp]:
  "sv_responseHandlers (fst (StopSeedingFile env post f s)) = sv_responseHandlers s"
  "sv_peers (fst (StopSeedingFile env post f s)) = sv_peers s"
  "sv_activeFiles (fst (StopSeedingFile env post f s)) = (sv_activeFiles s)(f := None)"
  "sv_opts (fst (StopSeedingFile env post f s)) = sv_opts s"
  "sv_quitch (fst (StopSeedingFile env post f s)) = sv_quitch s"
  by (simp_all add: StopSeedingFile_def Let_def split: sum.splits http_result.splits)

lemma stop_all_state:
  "fst (stop_all env post k files s) =
     s\<lparr>sv_activeFiles := (\<lambda>f. if f \<in> set files then None else sv_activeFiles s f)\<rparr>"
proof (induction files arbitrary: k s)
  case (Cons f files)
  obtain s1 rm e where s1: "StopSeedingFile env (post k) f s = (s1, rm, e)" using prod_cases3 by blast
  then have "s1 = s\<lparr>sv_activeFiles := (sv_activeFiles s)(f := None)\<rparr>"
    by (auto simp: StopSeedingFile_def Let_def split: sum.splits http_result.splits if_splits)
  with s1 have "fst (stop_all env post k (f # files) s) =
      fst (stop_all env post (Suc k) files (s\<lparr>sv_activeFiles := (sv_activeFiles s)(f := None)\<rparr>))"
    by (simp split: prod.split)
  also have "\<dots> = s\<lparr>sv_activeFiles := (\<lambda>g. if g \<in> set (f # files) then None else sv_activeFiles s g)\<rparr>"
    unfolding Cons.IH by (rule FileServer.equality) auto
  finally show ?case .
qed simp

lemma generateFileHashes_result:
  assumes "generateFileHashes fl fs path cs = Return (Inr (hs, th, ts))"
  shows "\<exists>content. os_Open fl fs path = Inr content \<and> th = calculateHash content \<and> ts = int (length content)"
  using assms
  by (auto simp: generateFileHashes_def Let_def split: sum.splits option.splits if_splits)

lemma generateFileID_result:
  assumes "generateFileID fl fs path = Inr fileID"
  shows "\<exists>content. os_Open fl fs path = Inr content \<and> fileID = calculateHash content"
  using assms by (auto simp: generateFileID_def calculateHash_def split: sum.splits option.splits)

lemma ShareFile_state:
  assumes "ShareFile fl enc env post path fs s = Return (fs', s', sent, err)"
  shows "s' = s \<or> (\<exists>content hs. os_Open fl fs path = Inr content \<and>
    s' = s\<lparr>sv_activeFiles := (sv_activeFiles s)(calculateHash content \<mapsto>
      shared_metadata (calculateHash content) path hs (calculateHash content) (int (length content)))\<rparr>)"
  using assms
  by (auto simp: ShareFile_def Let_def dest!: generateFileHashes_result generateFileID_result
      split: sum.splits outcome.splits prod.splits option.splits)

lemma ShareFile_seeds:
  assumes "ShareFile fl enc env post path fs s = Return (fs', s', sent, None)"
  shows "\<exists>content hs. fs path = Some content \<and>
    s' = s\<lparr>sv_activeFiles := (sv_activeFiles s)(calculateHash content \<mapsto>
      shared_metadata (calculateHash content) path hs (calculateHash content) (int (length content)))\<rparr>"
  using assms
  by (auto simp: ShareFile_def Let_def os_Open_def dest!: generateFileHashes_result generateFileID_result
      split: sum.splits outcome.splits prod.splits option.splits)

lemma handleRPCMessage_state:
  assumes "handleRPCMessage dec enc fls fs wr rpc s = Return (s', out, err)"
  shows "s' = s \<or> (\<exists>msg. s' = s\<lparr>sv_responseHandlers := map (run_handler msg) (sv_responseHandlers s)\<rparr>)"
  using assms
  by (auto simp: handleRPCMessage_def split: sum.splits option.splits if_splits payload.splits outcome.splits prod.splits)

lemma onPeer_peers: "sv_peers (fst (onPeer a s)) = (sv_peers s)(NormalizeAddress a \<mapsto> a)"
  by (simp add: onPeer_def)

lemma connectToAllPeers_state [simp]:
  "sv_responseHandlers (fst (connectToAllPeers dec resp seen dial later after fileID s)) = sv_responseHandlers s"
  "sv_activeFiles (fst (connectToAllPeers dec resp seen dial later after fileID s)) = sv_activeFiles s"
  "sv_peers (fst (connectToAllPeers dec resp seen dial later after fileID s)) \<in> {sv_peers s, after}"
  by (auto simp: connectToAllPeers_def Let_def split: sum.splits prod.splits)

lemma Cleanup_state:
  "Cleanup env post ord s = Return (s', rms) \<Longrightarrow>
     s' = s\<lparr>sv_activeFiles := (\<lambda>f. if f \<in> set ord then None else sv_activeFiles s f), sv_quitch := True\<rparr>"
  using stop_all_state [of env post 0 "range_keys ord (sv_activeFiles s)" s]
  by (auto simp: Cleanup_def set_range_keys fun_eq_iff split: prod.splits if_splits intro!: FileServer.equality)

lemma network_step_server: "network_step s s' \<Longrightarrow> server_step s s'"
  by (intro server_step.quiet quiet_step.network)

text \<open>The runs with a history are the runs of the node.\<close>

lemma server_run_iff: "server_step\<^sup>*\<^sup>* s0 s \<longleftrightarrow> (\<exists>hist. server_run s0 hist s)"
proof
  assume "server_step\<^sup>*\<^sup>* s0 s"
  then show "\<exists>hist. server_run s0 hist s"
  proof (induction rule: rtranclp_induct)
    case (step s s')
    then show ?case by (blast elim: server_stepE intro: server_run.intros)
  qed (blast intro: run_start)
next
  assume "\<exists>hist. server_run s0 hist s"
  then obtain hist where "server_run s0 hist s" ..
  then show "server_step\<^sup>*\<^sup>* s0 s"
    by induction (blast intro: rtranclp.rtrancl_into_rtrancl server_step.intros)+
qed

lemma connectToAllPeers_opts: "sv_opts (fst (connectToAllPeers dec resp seen dial later after fileID s)) = sv_opts s"
  by (auto simp: connectToAllPeers_def Let_def split: sum.splits prod.splits)

lemma network_step_keeps: "network_step s s' \<Longrightarrow> sv_activeFiles s' = sv_activeFiles s \<and> sv_opts s' = sv_opts s"
  by (induction rule: network_step.induct)
    (auto simp: onPeer_def delete_peer_def register_handler_def receive_response_def close_done_def
      connectToAllPeers_opts dest!: handleRPCMessage_state)

lemma network_steps_keep:
  "network_step\<^sup>*\<^sup>* s s' \<Longrightarrow> sv_activeFiles s' = sv_activeFiles s \<and> sv_opts s' = sv_opts s"
  by (induction rule: rtranclp_induct) (auto dest!: network_step_keeps)

lemma network_step_quitch: "network_step s s' \<Longrightarrow> sv_quitch s' = sv_quitch s"
  by (induction rule: network_step.induct)
    (auto simp: onPeer_def delete_peer_def register_handler_def receive_response_def close_done_def
      connectToAllPeers_def Let_def split: sum.splits prod.splits dest!: handleRPCMessage_state)

lemma network_steps_quitch: "network_step\<^sup>*\<^sup>* s s' \<Longrightarrow> sv_quitch s' = sv_quitch s"
  by (induction rule: rtranclp_induct) (auto dest!: network_step_quitch)

lemma handlers_step: "server_step s s' \<Longrightarrow> length (sv_responseHandlers s) \<le> length (sv_responseHandlers s')"
  by (elim server_stepE quiet_stepE network_stepE)
    (auto simp: onPeer_def delete_peer_def register_handler_def receive_response_def close_done_def
      SetTrackerAddress_def dest!: handleRPCMessage_state ShareFile_state Cleanup_state)

text \<open>
  Well-formed nodes: a peer is registered under its normalized address; a seeded file was read by
  one of the \<^verbatim>\<open>ShareFile\<close> calls of the history, and is registered under the hash of the content that
  call found at its path.
\<close>

definition shared_from :: "(string \<times> filesystem) list \<Rightarrow> string \<Rightarrow> Metadata \<Rightarrow> bool" where
  "shared_from hist f m \<longleftrightarrow>
     (\<exists>(path, fs) \<in> set hist. \<exists>content. fs path = Some content \<and> f = calculateHash content \<and>
        md_FileID m = f \<and> md_TotalHash m = f \<and> md_OriginalPath m = path \<and> md_FileExtension m = Ext path \<and>
        md_TotalSize m = int (length content) \<and> md_NumChunks m = int (length (md_ChunkHashes m)) \<and>
        md_ChunkSize m = ChunkSize)"

definition server_inv :: "(string \<times> filesystem) list \<Rightarrow> FileServer \<Rightarrow> bool" where
  "server_inv hist s \<longleftrightarrow>
     (\<forall>a r. sv_peers s a = Some r \<longrightarrow> NormalizeAddress r = a) \<and>
     (\<forall>f m. sv_activeFiles s f = Some m \<longrightarrow> shared_from hist f m)"

lemma normalized_fold:
  "(\<And>a r. m a = Some r \<Longrightarrow> NormalizeAddress r = a) \<Longrightarrow>
     fold (\<lambda>a m. m(NormalizeAddress a \<mapsto> a)) addrs m a = Some r \<Longrightarrow> NormalizeAddress r = a"
proof (induction addrs arbitrary: m)
  case (Cons b addrs)
  show ?case
    by (rule Cons.IH [of "m(NormalizeAddress b \<mapsto> b)"])
      (use Cons.prems in \<open>auto split: if_splits\<close>)
qed simp

lemma network_step_normalized:
  assumes "network_step s s'" and norm: "\<And>a r. sv_peers s a = Some r \<Longrightarrow> NormalizeAddress r = a"
    and peer: "sv_peers s' a = Some r"
  shows "NormalizeAddress r = a"
  using assms(1)
proof cases
  case (connect after addrs dec resp seen dial later fileID)
  have "sv_peers s' \<in> {sv_peers s, after}" unfolding connect(1) by (rule connectToAllPeers_state)
  moreover have "NormalizeAddress r = a" if "after a = Some r"
    using normalized_fold [of "sv_peers s" addrs a r] that norm connect(2) by blast
  ultimately show ?thesis using norm peer by auto
qed (use norm peer in \<open>auto simp: onPeer_def delete_peer_def register_handler_def receive_response_def
    close_done_def split: if_splits dest!: handleRPCMessage_state\<close>)

lemma quiet_step_inv: "quiet_step s s' \<Longrightarrow> server_inv hist s \<Longrightarrow> server_inv hist s'"
  by (erule quiet_stepE)
    (auto simp: server_inv_def SetTrackerAddress_def split: if_splits
      dest: network_step_keeps network_step_normalized dest!: Cleanup_state)

lemma shared_from_mono: "shared_from hist f m \<Longrightarrow> shared_from (x # hist) f m"
  by (auto simp: shared_from_def)

lemma share_inv:
  assumes "ShareFile fl enc env post path fs s = Return (fs', s', sent, err)" and "server_inv hist s"
  shows "server_inv ((path, fs) # hist) s'"
proof -
  have old: "shared_from ((path, fs) # hist) f m" if "sv_activeFiles s f = Some m" for f m
    using assms(2) that by (auto simp: server_inv_def intro: shared_from_mono)
  from ShareFile_state [OF assms(1)] show ?thesis
  proof
    assume "s' = s"
    then show ?thesis using assms(2) old by (simp add: server_inv_def)
  next
    assume "\<exists>content hs. os_Open fl fs path = Inr content \<and>
      s' = s\<lparr>sv_activeFiles := (sv_activeFiles s)(calculateHash content \<mapsto>
        shared_metadata (calculateHash content) path hs (calculateHash content) (int (length content)))\<rparr>"
    then obtain content hs where c: "fs path = Some content" and s': "s' = s\<lparr>sv_activeFiles := (sv_activeFiles s)
        (calculateHash content \<mapsto>
          shared_metadata (calculateHash content) path hs (calculateHash content) (int (length content)))\<rparr>"
      by (auto simp: os_Open_def split: option.splits)
    have "shared_from ((path, fs) # hist) (calculateHash content)
        (shared_metadata (calculateHash content) path hs (calculateHash content) (int (length content)))"
      using c by (auto simp: shared_from_def shared_metadata_def)
    then show ?thesis using assms(2) old by (auto simp: server_inv_def s')
  qed
qed

lemma server_run_inv: "server_run (fst (makeServer listenAddr node)) hist s \<Longrightarrow> server_inv hist s"
proof (induction rule: server_run.induct)
  case run_start
  then show ?case by (simp add: server_inv_def makeServer_def Let_def)
qed (blast intro: quiet_step_inv share_inv)+

interpretation busy_system: invariant_system
  "\<lambda>s. 5 \<le> length (sv_responseHandlers s)" server_step "\<lambda>s. 5 \<le> length (sv_responseHandlers s)"
  by unfold_locales (auto dest: handlers_step)

text \<open>
  C22: The invariant of a node, in every state of every run: a peer is registered under its
  normalized address; and a file that is seeded was read from some path and disk by one of the
  \<^verbatim>\<open>ShareFile\<close> calls of the run, is registered under the SHA-1 hash of the content that call found
  there, and its metadata give that path, the size of that content, one hash per chunk and 16 MiB
  chunks.
\<close>

theorem server_well_formed:
  assumes "server_run (fst (makeServer listenAddr node)) hist s"
  shows "(\<forall>a r. sv_peers s a = Some r \<longrightarrow> NormalizeAddress r = a) \<and>
    (\<forall>f m. sv_activeFiles s f = Some m \<longrightarrow>
      (\<exists>(path, fs) \<in> set hist. \<exists>content. fs path = Some content \<and> f = calculateHash content \<and>
        md_FileID m = f \<and> md_TotalHash m = f \<and> md_OriginalPath m = path \<and> md_FileExtension m = Ext path \<and>
        md_TotalSize m = int (length content) \<and> md_NumChunks m = int (length (md_ChunkHashes m)) \<and>
        md_ChunkSize m = ChunkSize))"
  using server_run_inv [OF assms] unfolding server_inv_def shared_from_def .

text \<open>
  C31: Flow control counts the wrong thing. It compares the number of registered response handlers,
  which no operation ever removes, with five: once a node has sent five chunk requests of its
  own, it refuses every chunk request for the rest of its life, whatever happens in between.
\<close>

theorem busy_node_refuses_forever:
  assumes "5 \<le> length (sv_responseHandlers s)" and "server_step\<^sup>*\<^sup>* s s'"
  shows "\<exists>e. handleChunkRequest enc fls fs wr req s' = Return ([], Some e)"
proof -
  have "5 \<le> length (sv_responseHandlers s')" using assms by (rule busy_system.reachable_inv)
  then show ?thesis by (auto simp: handleChunkRequest_def split: option.splits)
qed

subsection \<open>Announcing, sharing and stopping\<close>

definition post_ok :: "http_result \<Rightarrow> bool" where
  "post_ok r = (case r of Status code _ \<Rightarrow> code = 200 | _ \<Rightarrow> False)"

definition post_sent :: "http_result \<Rightarrow> bool" where
  "post_sent r = (case r of RequestError _ \<Rightarrow> False | _ \<Rightarrow> True)"

lemma announce_loop_step:
  "\<exists>err'. announce_loop post k (Suc n) err =
     (if post_ok (post k) then (1, None)
      else ((if post_sent (post k) then 1 else 0) + fst (announce_loop post (Suc k) n err'),
            snd (announce_loop post (Suc k) n err')))"
  by (cases "post k")
    (auto simp: post_ok_def post_sent_def case_prod_unfold intro!: exI conjI)

lemma announce_loop_result:
  "snd (announce_loop post k n err) = None \<longleftrightarrow> (\<exists>j < n. post_ok (post (k + j)))"
proof (induction n arbitrary: k err)
  case (Suc n)
  have "(\<exists>j < Suc n. post_ok (post (k + j))) \<longleftrightarrow> post_ok (post k) \<or> (\<exists>j < n. post_ok (post (Suc k + j)))"
    by (auto simp: less_Suc_eq_0_disj)
  moreover obtain err' where "announce_loop post k (Suc n) err =
     (if post_ok (post k) then (1, None)
      else ((if post_sent (post k) then 1 else 0) + fst (announce_loop post (Suc k) n err'),
            snd (announce_loop post (Suc k) n err')))"
    using announce_loop_step by blast
  ultimately show ?case using Suc.IH [of "Suc k" err'] by simp
qed simp

lemma announce_loop_count: "fst (announce_loop post k n err) \<le> n"
proof (induction n arbitrary: k err)
  case (Suc n)
  obtain err' where "announce_loop post k (Suc n) err =
     (if post_ok (post k) then (1, None)
      else ((if post_sent (post k) then 1 else 0) + fst (announce_loop post (Suc k) n err'),
            snd (announce_loop post (Suc k) n err')))"
    using announce_loop_step by blast
  then show ?case using Suc.IH [of "Suc k" err'] by simp
qed simp

lemma announce_loop_first:
  "(\<And>i. i < j \<Longrightarrow> post_sent (post (k + i)) \<and> \<not> post_ok (post (k + i))) \<Longrightarrow> post_ok (post (k + j)) \<Longrightarrow> j < n \<Longrightarrow>
     fst (announce_loop post k n err) = Suc j"
proof (induction n arbitrary: j k err)
  case (Suc n)
  obtain err' where step: "announce_loop post k (Suc n) err =
     (if post_ok (post k) then (1, None)
      else ((if post_sent (post k) then 1 else 0) + fst (announce_loop post (Suc k) n err'),
            snd (announce_loop post (Suc k) n err')))"
    using announce_loop_step by blast
  show ?case
  proof (cases j)
    case 0
    then show ?thesis unfolding step using Suc.prems by simp
  next
    case j: (Suc i)
    then have "post_sent (post k)" "\<not> post_ok (post k)" using Suc.prems(1) [of 0] by simp_all
    moreover have "post_sent (post (Suc k + l)) \<and> \<not> post_ok (post (Suc k + l))" if "l < i" for l
      using Suc.prems(1) [of "Suc l"] that j by simp
    then have "fst (announce_loop post (Suc k) n err') = Suc i"
      using Suc.IH [of i "Suc k" err'] Suc.prems(2,3) j by simp
    ultimately show ?thesis unfolding step using j by simp
  qed
qed simp

text \<open>
  C29: Announcing with retries. Once the node knows its own address, announcing succeeds exactly if
  one of the three attempts is answered with status 200; it stops at the first such answer, sends
  at most three requests, and all of them carry the same announcement.
\<close>

theorem announceToTracker_retries:
  assumes "getPeerAddress (fst env) (snd env) listenAddr = Inr peerAddr"
    and "announceToTracker env post fileID listenAddr m = (sent, err)"
  shows "(err = None \<longleftrightarrow> (\<exists>k < 3. post_ok (post k))) \<and> length sent \<le> 3 \<and>
    set sent \<subseteq> {announcement_of fileID peerAddr m} \<and>
    (\<forall>k < 3. post_ok (post k) \<longrightarrow> (\<forall>i < k. post_sent (post i) \<and> \<not> post_ok (post i)) \<longrightarrow> length sent = Suc k)"
proof -
  obtain n r where l: "announce_loop post 0 3 None = (n, r)" by fastforce
  with assms have sent: "sent = replicate n (announcement_of fileID peerAddr m)" "err = r"
    by (auto simp: announceToTracker_def)
  have "r = None \<longleftrightarrow> (\<exists>k < 3. post_ok (post k))"
    using announce_loop_result [of post 0 3 None] l by simp
  moreover have "n \<le> 3" using announce_loop_count [of post 0 3 None] l by simp
  moreover have "n = Suc k" if "k < 3" "post_ok (post k)" "\<forall>i < k. post_sent (post i) \<and> \<not> post_ok (post i)" for k
    using announce_loop_first [of k post 0 3 None] that l by simp
  ultimately show ?thesis using sent by auto
qed

lemma ShareFile_ok:
  assumes "fs path = Some content" and "open_fault fl path = None" and "stat_fault fl path = None"
    and "copy_fault fl path = None" and "\<And>j. \<exists>cap \<ge> 16777216. read_plan fl path j = ReadSome cap"
    and "int (length content) + 16777216 < 9223372036854775808"
    and "mkdir_fault fl (Root (sv_store s)) = None"
    and "create_fault fl (metadata_path (Root (sv_store s)) (calculateHash content)) = None"
    and "write_fault fl (metadata_path (Root (sv_store s)) (calculateHash content)) = None"
    and "m = shared_metadata (calculateHash content) path
      (map (\<lambda>j. calculateHash (block 16777216 content j)) [0..<num_chunks 16777216 (length content)])
      (calculateHash content) (int (length content))"
  shows "ShareFile fl enc env post path fs s =
      Return (fs(metadata_path (Root (sv_store s)) (calculateHash content) \<mapsto> enc m),
        s\<lparr>sv_activeFiles := (sv_activeFiles s)(calculateHash content \<mapsto> m)\<rparr>,
        if so_TrackerAddr (sv_opts s) = [] then []
        else fst (announceToTracker env post (calculateHash content) (so_ListenAddr (sv_opts s)) m), None)"
proof -
  have "generateFileID fl fs path = Inr (calculateHash content)"
    using assms(1,2,4) by (simp add: generateFileID_def os_Open_def calculateHash_def)
  moreover have "generateFileHashes fl fs path ChunkSize = Return (Inr (md_ChunkHashes m, md_TotalHash m, md_TotalSize m))"
    using generateFileHashes_ok [of fs path content fl ChunkSize] assms(1-6)
    by (simp add: ChunkSize_def shared_metadata_def assms(10))
  moreover have "saveMetadata fl enc (Root (sv_store s)) m fs =
      (fs(metadata_path (Root (sv_store s)) (calculateHash content) \<mapsto> enc m), None)"
    using saveMetadata_ok [of fl "Root (sv_store s)" m enc fs] assms(7-10) by (simp add: shared_metadata_def)
  moreover have "shared_metadata (calculateHash content) path (md_ChunkHashes m) (md_TotalHash m) (md_TotalSize m) = m"
    by (simp add: assms(10) shared_metadata_def)
  ultimately show ?thesis by (simp add: ShareFile_def Let_def)
qed

text \<open>
  C15: Sharing a file. With no I/O fault and full reads, \<^verbatim>\<open>ShareFile\<close> registers the file under the
  SHA-1 hash of its content and stores its metadata; the metadata describe the file: one hash per
  chunk, each accepting its block of the file, the blocks making up the file, and its size. The
  tracker, if there is one, is sent exactly this description; a tracker that does not answer does
  not make sharing fail.
\<close>

theorem ShareFile_spec:
  assumes "fs path = Some content" and "open_fault fl path = None" and "stat_fault fl path = None"
    and "copy_fault fl path = None" and "\<And>j. \<exists>cap \<ge> 16777216. read_plan fl path j = ReadSome cap"
    and "int (length content) + 16777216 < 9223372036854775808"
    and "mkdir_fault fl (Root (sv_store s)) = None"
    and "create_fault fl (metadata_path (Root (sv_store s)) (calculateHash content)) = None"
    and "write_fault fl (metadata_path (Root (sv_store s)) (calculateHash content)) = None"
  shows "\<exists>m sent. ShareFile fl enc env post path fs s =
      Return (fs(metadata_path (Root (sv_store s)) (calculateHash content) \<mapsto> enc m),
        s\<lparr>sv_activeFiles := (sv_activeFiles s)(calculateHash content \<mapsto> m)\<rparr>, sent, None) \<and>
    md_FileID m = calculateHash content \<and> md_TotalHash m = calculateHash content \<and>
    md_OriginalPath m = path \<and> md_TotalSize m = int (length content) \<and>
    md_NumChunks m = int (num_chunks 16777216 (length content)) \<and>
    length (md_ChunkHashes m) = num_chunks 16777216 (length content) \<and>
    (\<forall>i < length (md_ChunkHashes m). verifyChunk (block 16777216 content i) (md_ChunkHashes m ! i)) \<and>
    concat (map (block 16777216 content) [0..<length (md_ChunkHashes m)]) = content \<and>
    sent = (if so_TrackerAddr (sv_opts s) = [] then []
      else fst (announceToTracker env post (calculateHash content) (so_ListenAddr (sv_opts s)) m))"
proof -
  let ?hs = "map (\<lambda>j. calculateHash (block 16777216 content j)) [0..<num_chunks 16777216 (length content)]"
  define m where "m = shared_metadata (calculateHash content) path ?hs (calculateHash content) (int (length content))"
  have "concat (map (block 16777216 content) [0..<num_chunks 16777216 (length content)]) = content"
    using num_chunks_covers [of 16777216 "length content"] by (simp add: concat_all_blocks)
  moreover note ShareFile_ok [of fs path content fl s m enc env post, OF assms m_def]
  ultimately show ?thesis
    by (intro exI [of _ m] exI conjI) (simp_all add: m_def shared_metadata_def verifyChunk_def)
qed

text \<open>What a successful \<^verbatim>\<open>ShareFile\<close> left behind and announced.\<close>

lemma ShareFile_shared:
  assumes "ShareFile fl enc env post path fs s = Return (fs', s', sent, None)" and "fs path = Some content"
    and "\<And>j. \<exists>cap \<ge> 16777216. read_plan fl path j = ReadSome cap"
    and "int (length content) + 16777216 < 9223372036854775808"
  shows "\<exists>m hs. sv_activeFiles s' (calculateHash content) = Some m \<and>
    m = shared_metadata (calculateHash content) path hs (calculateHash content) (int (length content)) \<and>
    length hs = num_chunks 16777216 (length content) \<and>
    (\<forall>a \<in> set sent. \<exists>peer. a = announcement_of (calculateHash content) peer m)"
proof -
  let ?fid = "calculateHash content"
  have opened: "open_fault fl path = None" "copy_fault fl path = None" "generateFileID fl fs path = Inr ?fid"
    using assms(1,2) by (auto simp: ShareFile_def generateFileID_def os_Open_def calculateHash_def
        split: option.splits sum.splits)
  have stat: "stat_fault fl path = None"
    using assms(1,2) opened
    by (auto simp: ShareFile_def generateFileHashes_def os_Open_def ChunkSize_def split: option.splits)
  define hs where "hs = map (\<lambda>j. calculateHash (block 16777216 content j)) [0..<num_chunks 16777216 (length content)]"
  have "generateFileHashes fl fs path ChunkSize = Return (Inr (hs, ?fid, int (length content)))"
    using generateFileHashes_ok [of fs path content fl ChunkSize] assms(2-4) opened stat
    by (simp add: ChunkSize_def hs_def)
  with assms(1) opened(3) have "sv_activeFiles s' ?fid = Some (shared_metadata ?fid path hs ?fid (int (length content))) \<and>
      set sent \<subseteq> set (fst (announceToTracker env post ?fid (so_ListenAddr (sv_opts s))
        (shared_metadata ?fid path hs ?fid (int (length content)))))"
    by (auto simp: ShareFile_def Let_def split: prod.splits option.splits if_splits)
  moreover have "length hs = num_chunks 16777216 (length content)" by (simp add: hs_def)
  moreover have "\<exists>peer. a = announcement_of ?fid peer m"
    if "a \<in> set (fst (announceToTracker env post ?fid (so_ListenAddr (sv_opts s)) m))" for a m
    using that by (auto simp: announceToTracker_def split: sum.splits prod.splits)
  ultimately show ?thesis by (intro exI [of _ "shared_metadata ?fid path hs ?fid (int (length content))"] exI [of _ hs]) blast
qed

lemma StopSeedingFile_removal:
  assumes "getPeerAddress (fst env) (snd env) (so_ListenAddr (sv_opts s)) = Inr a"
    and "so_TrackerAddr (sv_opts s) \<noteq> []" and "post_sent post"
  shows "fst (snd (StopSeedingFile env post f s)) = Some \<lparr>rm_FileID = f, rm_PeerAddr = a\<rparr>"
  using assms by (auto simp: StopSeedingFile_def Let_def post_sent_def split: http_result.splits)

lemma stop_all_removals:
  assumes "getPeerAddress (fst env) (snd env) (so_ListenAddr (sv_opts s)) = Inr a"
    and "so_TrackerAddr (sv_opts s) \<noteq> []" and "\<And>k. post_sent (post k)"
  shows "snd (stop_all env post k files s) = map (\<lambda>f. \<lparr>rm_FileID = f, rm_PeerAddr = a\<rparr>) files"
  using assms(1,2)
proof (induction files arbitrary: k s)
  case (Cons f files)
  have "fst (snd (StopSeedingFile env (post k) f s)) = Some \<lparr>rm_FileID = f, rm_PeerAddr = a\<rparr>"
    using Cons.prems assms(3) by (intro StopSeedingFile_removal)
  moreover have "sv_opts (fst (StopSeedingFile env (post k) f s)) = sv_opts s" by simp
  ultimately show ?case
    using Cons.IH [of "fst (StopSeedingFile env (post k) f s)" "Suc k"] Cons.prems
    by (simp add: case_prod_unfold)
qed simp

lemma Cleanup_removes:
  assumes "covers ord (sv_activeFiles s)" and "\<not> sv_quitch s"
    and "getPeerAddress (fst env) (snd env) (so_ListenAddr (sv_opts s)) = Inr a"
    and "so_TrackerAddr (sv_opts s) \<noteq> []" and "\<And>k. post_sent (post k)"
  shows "Cleanup env post ord s = Return (s\<lparr>sv_activeFiles := Map.empty, sv_quitch := True\<rparr>,
    map (\<lambda>f. \<lparr>rm_FileID = f, rm_PeerAddr = a\<rparr>) (range_keys ord (sv_activeFiles s)))"
proof -
  let ?files = "range_keys ord (sv_activeFiles s)"
  have "fst (stop_all env post 0 ?files s) = s\<lparr>sv_activeFiles := Map.empty\<rparr>"
    unfolding stop_all_state set_range_keys_covers [OF assms(1)]
    by (rule FileServer.equality) (auto simp: fun_eq_iff)
  moreover have "snd (stop_all env post 0 ?files s) = map (\<lambda>f. \<lparr>rm_FileID = f, rm_PeerAddr = a\<rparr>) ?files"
    using assms(3-5) by (rule stop_all_removals)
  ultimately have stop: "stop_all env post 0 ?files s =
      (s\<lparr>sv_activeFiles := Map.empty\<rparr>, map (\<lambda>f. \<lparr>rm_FileID = f, rm_PeerAddr = a\<rparr>) ?files)"
    by (rule prod_eqI [OF trans [OF _ fst_conv [symmetric]] trans [OF _ snd_conv [symmetric]]])
  show ?thesis using assms(2) by (simp add: Cleanup_def stop)
qed

text \<open>
  C27: Shutting down. \<^verbatim>\<open>Cleanup\<close> leaves no file seeded, so every chunk request is refused and every
  re-announcing goroutine ends at its next tick; the tracker is sent one removal for each file
  that was seeded, under the address the node announces itself with. A second \<^verbatim>\<open>Cleanup\<close> panics.
\<close>

theorem Cleanup_stops:
  assumes "covers ord (sv_activeFiles s)" and "\<not> sv_quitch s"
    and "getPeerAddress (fst env) (snd env) (so_ListenAddr (sv_opts s)) = Inr a"
    and "so_TrackerAddr (sv_opts s) \<noteq> []" and "\<And>k. post_sent (post k)"
  shows "\<exists>s' rms. Cleanup env post ord s = Return (s', rms) \<and> sv_activeFiles s' = Map.empty \<and>
    distinct rms \<and> set rms = {\<lparr>rm_FileID = f, rm_PeerAddr = a\<rparr> |f. f \<in> dom (sv_activeFiles s)} \<and>
    (\<forall>enc fls fs wr req. \<exists>e. handleChunkRequest enc fls fs wr req s' = Return ([], Some e)) \<and>
    (\<forall>quit f. announce_tick quit env post f s' = (False, [])) \<and>
    Cleanup env post ord s' = Panic"
proof -
  let ?files = "range_keys ord (sv_activeFiles s)"
  let ?s' = "s\<lparr>sv_activeFiles := Map.empty, sv_quitch := True\<rparr>"
  have "Cleanup env post ord s = Return (?s', map (\<lambda>f. \<lparr>rm_FileID = f, rm_PeerAddr = a\<rparr>) ?files)"
    using assms by (rule Cleanup_removes)
  moreover have "Cleanup env post ord ?s' = Panic"
    by (simp add: Cleanup_def range_keys_def)
  moreover have "distinct (map (\<lambda>f. \<lparr>rm_FileID = f, rm_PeerAddr = a\<rparr>) ?files)"
    by (simp add: distinct_map inj_on_def)
  moreover have "set (map (\<lambda>f. \<lparr>rm_FileID = f, rm_PeerAddr = a\<rparr>) ?files) =
      {\<lparr>rm_FileID = f, rm_PeerAddr = a\<rparr> |f. f \<in> dom (sv_activeFiles s)}"
    using set_range_keys_covers [OF assms(1)] by auto
  ultimately show ?thesis
    by (intro exI [of _ ?s'] exI conjI) (auto simp: handleChunkRequest_def announce_tick_def)
qed



subsection \<open>Examples\<close>

text \<open>A seeder of the three-byte file \<^verbatim>\<open>a\<close>, and a downloader waiting for its only chunk.\<close>

definition example_meta :: Metadata where
  "example_meta = shared_metadata ''f'' ''a'' [''h''] ''f'' 3"

definition example_seeder :: FileServer where
  "example_seeder =
     (fst (makeServer '':3000'' []))\<lparr>sv_activeFiles := [''f'' \<mapsto> example_meta]\<rparr>"

definition example_downloader :: FileServer where
  "example_downloader =
     register_handler ''f'' 0 (fst (onPeer ''10.0.0.2:3000'' (fst (makeServer '':3001'' []))))"

definition example_env :: net_env where
  "example_env = (Inr (Inr ''8.8.4.4''), Inr [Some (v4_prefix @ [10, 0, 0, 2])])"

lemma example_env_addr:
  "getPeerAddress (fst example_env) (snd example_env) '':3000'' = Inr ''8.8.4.4:3000|10.0.0.2:3000''"
  by code_simp

lemma example_seeder_simps [simp]:
  "sv_activeFiles example_seeder = [''f'' \<mapsto> example_meta]" "sv_responseHandlers example_seeder = []"
  "sv_quitch example_seeder = False" "so_ListenAddr (sv_opts example_seeder) = '':3000''"
  "so_TrackerAddr (sv_opts example_seeder) = []" "Root (sv_store example_seeder) = ''shared_files''"
  by (simp_all add: example_seeder_def makeServer_def NewStore_def Let_def)

lemma example_meta_simps [simp]:
  "md_OriginalPath example_meta = ''a''" "md_NumChunks example_meta = 1"
  by (simp_all add: example_meta_def shared_metadata_def)

theorem handleChunkRequest_refuses_witness:
  "\<exists>e. handleChunkRequest (\<lambda>_. Inr [1]) (\<lambda>_. no_faults) Map.empty (\<lambda>_ d. (length d, None))
     \<lparr>rq_FileID = ''f'', rq_Chunk = 1\<rparr> example_seeder = Return ([], Some e)"
  using handleChunkRequest_refuses [of example_seeder "\<lparr>rq_FileID = ''f'', rq_Chunk = 1\<rparr>"] by simp

theorem chunk_transfer_witness:
  "\<exists>c' d'. DefaultDecoder_Decode [Data [0, 0, 0], Data [1, 9, 7]] = (Inr [9], c') \<and>
    handleRPCMessage (\<lambda>_. Inr (NewChunkResponseMessage ''f'' 0 [1, 2, 3])) (\<lambda>_. Inr []) (\<lambda>_. no_faults) Map.empty
      (\<lambda>_ d. (length d, None)) \<lparr>rpc_From = ''10.0.0.2:3000'', rpc_Payload = [9], rpc_Stream = False\<rparr>
      example_downloader = Return (d', None, None) \<and>
    map h_responseChan (sv_responseHandlers d') = [Some \<lparr>rs_FileID = ''f'', rs_Chunk = 0, rs_Data = [1, 2, 3]\<rparr>]"
proof -
  let ?msg = "NewChunkResponseMessage ''f'' (int 0) (block 16777216 [1, 2, 3] 0)"
  let ?wr = "\<lambda>_ d. (length d, None)" and ?fs = "[''a'' \<mapsto> [1, 2, 3 :: byte]]"
  obtain out err where req: "handleChunkRequest (\<lambda>_. Inr [9]) (\<lambda>_. no_faults) ?fs ?wr
      \<lparr>rq_FileID = ''f'', rq_Chunk = int 0\<rparr> example_seeder = Return (out, err)" and out: "out = [0, 0, 0, 1, 9]"
  proof -
    have "ReadChunk no_faults ?fs ''a'' (int 0) = Return (Inr (block 16777216 [1, 2, 3] 0))"
      by (rule ReadChunk_block) (simp_all add: no_faults_def)
    then have "handleChunkRequest (\<lambda>_. Inr [9]) (\<lambda>_. no_faults) ?fs ?wr
      \<lparr>rq_FileID = ''f'', rq_Chunk = int 0\<rparr> example_seeder = Return (frame [9], None)"
      by (intro handleChunkRequest_writes [where meta = example_meta and chunkData = "block 16777216 [1, 2, 3] 0"])
        (simp_all add: reliable_def numeral_3_eq_3)
    with that show thesis by (simp add: frame_examples)
  qed
  have d: "sv_responseHandlers example_downloader = [\<lparr>h_fileID = ''f'', h_chunkIndex = 0, h_done = False,
      h_responseChan = None, h_errChan = None\<rparr>]"
    "sv_peers example_downloader (NormalizeAddress ''10.0.0.2:3000'') = Some ''10.0.0.2:3000''"
    by (simp_all add: example_downloader_def register_handler_def makeServer_def onPeer_def Let_def)
  from chunk_transfer [where s = example_seeder and fs = ?fs and fls = "\<lambda>_. no_faults" and content = "[1, 2, 3]"
      and i = 0 and msg = ?msg and dec = "\<lambda>_. Inr ?msg" and c = "[Data [0, 0, 0], Data [1, 9, 7]]" and rest = "[7]"
      and fls' = "\<lambda>_. no_faults" and fs' = Map.empty and wr' = ?wr and enc' = "\<lambda>_. Inr []",
      OF _ _ _ _ _ _ _ _ _ refl refl refl _ _ _ _ d(2) req]
  have "(\<exists>c'. DefaultDecoder_Decode [Data [0, 0, 0], Data [1, 9, 7]] = (Inr [9], c') \<and> segments c' = Some [7]) \<and>
    handleRPCMessage (\<lambda>_. Inr ?msg) (\<lambda>_. Inr []) (\<lambda>_. no_faults) Map.empty ?wr
      \<lparr>rpc_From = ''10.0.0.2:3000'', rpc_Payload = [9], rpc_Stream = False\<rparr> example_downloader =
      Return (example_downloader\<lparr>sv_responseHandlers := map (\<lambda>h. if waits_for ''f'' (int 0) h
        then h\<lparr>h_responseChan := Some \<lparr>rs_FileID = ''f'', rs_Chunk = int 0, rs_Data = block 16777216 [1, 2, 3] 0\<rparr>\<rparr>
        else h) (sv_responseHandlers example_downloader)\<rparr>, None, None)"
    by (simp add: no_faults_def num_chunks_def maxMessageSize_def reliable_def out)
  then show ?thesis by (auto simp: d waits_for_def block_def)
qed

theorem busy_node_refuses_forever_witness:
  "\<exists>e. handleChunkRequest (\<lambda>_. Inr [1]) (\<lambda>_. no_faults) [''a'' \<mapsto> [1, 2, 3]] (\<lambda>_ d. (length d, None))
     \<lparr>rq_FileID = ''f'', rq_Chunk = 0\<rparr>
     (close_done 0 (example_seeder\<lparr>sv_responseHandlers := replicate 5
        \<lparr>h_fileID = ''g'', h_chunkIndex = 0, h_done = True, h_responseChan = None, h_errChan = None\<rparr>\<rparr>)) =
     Return ([], Some e)"
proof (rule busy_node_refuses_forever)
  let ?s = "example_seeder\<lparr>sv_responseHandlers := replicate 5
        \<lparr>h_fileID = ''g'', h_chunkIndex = 0, h_done = True, h_responseChan = None, h_errChan = None\<rparr>\<rparr>"
  show "5 \<le> length (sv_responseHandlers ?s)" by simp
  show "server_step\<^sup>*\<^sup>* ?s (close_done 0 ?s)" by (intro r_into_rtranclp network_step_server network_step.finish)
qed

theorem announceToTracker_retries_witness:
  "\<exists>sent. announceToTracker example_env (\<lambda>k. if k = 0 then DoError EOF else Status 200 []) ''f'' '':3000'' example_meta =
     (sent, None) \<and> length sent = 2"
proof -
  define post :: "nat \<Rightarrow> http_result" where "post = (\<lambda>k. if k = 0 then DoError EOF else Status 200 [])"
  have p: "post_sent (post 0)" "\<not> post_ok (post 0)" "post_ok (post 1)"
    by (simp_all add: post_def post_ok_def post_sent_def)
  obtain sent err where a: "announceToTracker example_env post ''f'' '':3000'' example_meta = (sent, err)"
    by fastforce
  note r = announceToTracker_retries [OF example_env_addr a]
  have "err = None" using r p(3) by (auto intro: exI [of _ 1])
  moreover have "length sent = Suc 1" using r p by (metis One_nat_def less_Suc0 one_less_numeral_iff semiring_norm(77))
  ultimately show ?thesis using a unfolding post_def by (intro exI [of _ sent]) simp
qed

theorem ShareFile_spec_witness:
  "\<exists>m fs' s'. ShareFile no_faults (\<lambda>_. [1]) example_env (\<lambda>_. Status 200 []) ''a'' [''a'' \<mapsto> [1, 2, 3]] example_seeder =
      Return (fs', s', [], None) \<and>
    sv_activeFiles s' (calculateHash [1, 2, 3]) = Some m \<and> md_NumChunks m = 1 \<and>
    verifyChunk [1, 2, 3] (md_ChunkHashes m ! 0)"
proof -
  have nf: "[''a'' \<mapsto> [1, 2, 3 :: byte]] ''a'' = Some [1, 2, 3]" "open_fault no_faults ''a'' = None"
    "stat_fault no_faults ''a'' = None" "copy_fault no_faults ''a'' = None"
    "int (length [1, 2, 3 :: byte]) + 16777216 < 9223372036854775808"
    "mkdir_fault no_faults p = None" "create_fault no_faults p = None" "write_fault no_faults p = None"
    "\<exists>cap \<ge> 16777216. read_plan no_faults ''a'' j = ReadSome cap" for p j
    by (simp_all add: no_faults_def)
  obtain m where "ShareFile no_faults (\<lambda>_. [1]) example_env (\<lambda>_. Status 200 []) ''a'' [''a'' \<mapsto> [1, 2, 3]] example_seeder =
      Return ([''a'' \<mapsto> [1, 2, 3]](metadata_path ''shared_files'' (calculateHash [1, 2, 3]) \<mapsto> [1]),
        example_seeder\<lparr>sv_activeFiles := (sv_activeFiles example_seeder)(calculateHash [1, 2, 3] \<mapsto> m)\<rparr>, [], None)"
    "md_NumChunks m = 1" "length (md_ChunkHashes m) = 1" "verifyChunk (block 16777216 [1, 2, 3] 0) (md_ChunkHashes m ! 0)"
    using ShareFile_spec [where fs = "[''a'' \<mapsto> [1, 2, 3]]" and s = example_seeder and enc = "\<lambda>_. [1]"
        and env = example_env and post = "\<lambda>_. Status 200 []", OF nf(1-4) nf(9) nf(5-8)]
    by (auto simp: num_chunks_def)
  then show ?thesis by (auto simp: block_def)
qed

theorem Cleanup_stops_witness:
  "\<exists>s' rms. Cleanup example_env (\<lambda>_. Status 200 []) [''f''] (SetTrackerAddress ''t'' example_seeder) = Return (s', rms) \<and>
    sv_activeFiles s' = Map.empty \<and> rms = [\<lparr>rm_FileID = ''f'', rm_PeerAddr = ''8.8.4.4:3000|10.0.0.2:3000''\<rparr>]"
proof -
  let ?s = "SetTrackerAddress ''t'' example_seeder"
  have s: "covers [''f''] (sv_activeFiles ?s)" "\<not> sv_quitch ?s" "so_TrackerAddr (sv_opts ?s) \<noteq> []"
    "getPeerAddress (fst example_env) (snd example_env) (so_ListenAddr (sv_opts ?s)) = Inr ''8.8.4.4:3000|10.0.0.2:3000''"
    "dom (sv_activeFiles ?s) = {''f''}"
    by (simp_all add: SetTrackerAddress_def covers_def example_env_addr)
  have sent: "post_sent ((\<lambda>_. Status 200 []) k)" for k :: nat by (simp add: post_sent_def)
  obtain s' rms where c: "Cleanup example_env (\<lambda>_. Status 200 []) [''f''] ?s = Return (s', rms)"
    "sv_activeFiles s' = Map.empty" "distinct rms"
    "set rms = {\<lparr>rm_FileID = ''f'', rm_PeerAddr = ''8.8.4.4:3000|10.0.0.2:3000''\<rparr>}"
    using Cleanup_stops [where post = "\<lambda>_. Status 200 []", OF s(1,2,4,3) sent] s(5) by auto
  have "rms = [\<lparr>rm_FileID = ''f'', rm_PeerAddr = ''8.8.4.4:3000|10.0.0.2:3000''\<rparr>]"
    using c(3,4) by (cases rms; cases "tl rms") auto
  with c show ?thesis by blast
qed


text \<open>A node with a tracker shares a file of three bytes.\<close>

definition example_node :: FileServer where
  "example_node = SetTrackerAddress ''t'' (fst (makeServer '':3000'' []))"

definition example_hash :: string where
  "example_hash = calculateHash [1, 2, 3]"

definition example_shared :: Metadata where
  "example_shared = shared_metadata example_hash ''a'' [example_hash] example_hash 3"

definition example_announced :: announcement where
  "example_announced = announcement_of example_hash ''8.8.4.4:3000|10.0.0.2:3000'' example_shared"

lemma example_share:
  "\<exists>fs'. ShareFile no_faults (\<lambda>_. [1]) example_env (\<lambda>_. Status 200 []) ''a'' [''a'' \<mapsto> [1, 2, 3]] example_node =
    Return (fs', example_node\<lparr>sv_activeFiles := [example_hash \<mapsto> example_shared]\<rparr>, [example_announced], None)"
proof -
  have node: "sv_activeFiles example_node = Map.empty" "so_TrackerAddr (sv_opts example_node) = ''t''"
    "so_ListenAddr (sv_opts example_node) = '':3000''"
    by (simp_all add: example_node_def SetTrackerAddress_def makeServer_def Let_def)
  have m: "example_shared = shared_metadata (calculateHash [1, 2, 3]) ''a''
      (map (\<lambda>j. calculateHash (block 16777216 [1, 2, 3] j)) [0..<num_chunks 16777216 (length [1, 2, 3 :: byte])])
      (calculateHash [1, 2, 3]) (int (length [1, 2, 3 :: byte]))"
    by (simp add: example_shared_def example_hash_def num_chunks_def block_def)
  have "fst (announceToTracker example_env (\<lambda>_. Status 200 []) example_hash '':3000'' example_shared) = [example_announced]"
    by (simp add: announceToTracker_def example_env_addr example_announced_def numeral_3_eq_3)
  with ShareFile_ok [of "[''a'' \<mapsto> [1, 2, 3]]" "''a''" "[1, 2, 3]" no_faults example_node example_shared "\<lambda>_. [1]" example_env
      "\<lambda>_. Status 200 []", OF _ _ _ _ _ _ _ _ _ m]
  show ?thesis by (simp add: no_faults_def node example_hash_def [symmetric])
qed

lemma example_hash_nonempty: "example_hash \<noteq> []"
proof -
  have "length example_hash = 40" by (simp add: example_hash_def)
  then show ?thesis by auto
qed

theorem server_well_formed_witness:
  "\<exists>m content. sv_activeFiles (example_node\<lparr>sv_activeFiles := [example_hash \<mapsto> example_shared]\<rparr>) example_hash = Some m \<and>
    [''a'' \<mapsto> [1, 2, 3 :: byte]] (md_OriginalPath m) = Some content \<and> example_hash = calculateHash content"
proof -
  let ?s = "example_node\<lparr>sv_activeFiles := [example_hash \<mapsto> example_shared]\<rparr>"
  have "server_run (fst (makeServer '':3000'' [])) [] example_node"
    unfolding example_node_def by (rule run_quiet [OF run_start quiet_step.tracker])
  then have "server_run (fst (makeServer '':3000'' [])) [(''a'', [''a'' \<mapsto> [1, 2, 3]])] ?s"
    using example_share run_share by blast
  note wf = server_well_formed [OF this, THEN conjunct2, THEN spec, THEN spec]
  have active: "sv_activeFiles ?s example_hash = Some example_shared" by simp
  from wf [THEN mp, OF active] obtain content where "[''a'' \<mapsto> [1, 2, 3 :: byte]] ''a'' = Some content"
    "example_hash = calculateHash content" "md_OriginalPath example_shared = ''a''"
    unfolding list.set by (auto simp del: fun_upd_apply)
  then show ?thesis using active by (intro exI [of _ example_shared] exI [of _ content]) (simp del: fun_upd_apply)
qed

end
