(* ===== verification/Download.thy ===== *)
theory Download
  imports File_Server Piece_Manager
begin

section \<open>Downloading (server.go: writeAndVerifyChunk, downloadChunk, DownloadFile)\<close>

text \<open>
  Writing a received chunk, fetching one chunk with retries, and the download of a whole file.
  \<^verbatim>\<open>DownloadFile\<close> runs a main loop and up to ten worker goroutines; after its sequential start
  it is a step relation on the state they share, in which the goroutines' steps interleave in any
  order.
\<close>

subsection \<open>Writing a chunk\<close>

text \<open>Bytes written at an offset; a gap before it is filled with zeros, as the file system does.\<close>

definition write_at :: "bytes \<Rightarrow> nat \<Rightarrow> bytes \<Rightarrow> bytes" where
  "write_at f off d =
     (if d = [] then f
      else take off (f @ replicate (off - length f) 0) @ d @ drop (off + length d) f)"

text \<open>\<^verbatim>\<open>File.WriteAt\<close>: \<open>w\<close> is how many bytes the call writes, and its error.\<close>

definition file_WriteAt :: "nat \<times> go_error option \<Rightarrow> bytes \<Rightarrow> int \<Rightarrow> bytes \<Rightarrow> bytes \<times> nat \<times> go_error option" where
  "file_WriteAt w d off f =
     (if off < 0 then (f, 0, Some (Errorf ''negative offset''))
      else (write_at f (nat off) (take (fst w) d), min (fst w) (length d), snd w))"

fun write_attempts ::
  "(nat \<Rightarrow> nat \<times> go_error option) \<Rightarrow> bytes \<Rightarrow> int \<Rightarrow> nat \<Rightarrow> nat \<Rightarrow> bytes \<Rightarrow> bytes \<times> go_error option" where
  "write_attempts wa d off retries 0 f = (f, Some (Errorf ''failed to write chunk after retries''))"
| "write_attempts wa d off retries (Suc n) f =
     (case file_WriteAt (wa retries) d off f of
        (f', written, Some e) \<Rightarrow>
          if retries < 2 then write_attempts wa d off (Suc retries) n f'
          else (f', Some (Errorf (''write error: '' @ Error e)))
      | (f', written, None) \<Rightarrow>
          if written \<noteq> length d then
            (if retries < 2 then write_attempts wa d off (Suc retries) n f'
             else (f', Some (Errorf (''incomplete write: '' @ show_nat written @ '' of '' @
                     show_nat (length d) @ '' bytes''))))
          else (f', None))"

definition writeAndVerifyChunk ::
  "(nat \<Rightarrow> nat \<times> go_error option) \<Rightarrow> bytes \<Rightarrow> int \<Rightarrow> int \<Rightarrow> bytes \<Rightarrow> bytes \<times> go_error option" where
  "writeAndVerifyChunk wa data chunkIndex chunkSize f =
     (let startOffset = wrap64 (chunkIndex * chunkSize)
      in if int (length data) > chunkSize then (f, Some (Errorf ''oversized chunk data''))
         else write_attempts wa data startOffset 0 3 f)"

subsection \<open>Fetching one chunk\<close>

text \<open>How the exchange with one peer ends: which case of the \<^verbatim>\<open>select\<close>, or an earlier failure.\<close>

datatype exchange = EncodeFails | SendFails | Response bytes | ErrorMessage go_error | TimedOut

text \<open>The time allowed for a response, in seconds.\<close>

definition response_timeout :: "int \<Rightarrow> int \<Rightarrow> int" where
  "response_timeout chunkSize attempt =
     (if chunkSize > 16 * 1024 * 1024 then quot chunkSize (2 * 1024 * 1024) else 30) + attempt * 5"

text \<open>
  The loop over the peers of one attempt. \<open>talk\<close> and \<open>wa\<close> are what each peer and each write does.
  The result says whether the chunk is written, and carries the last error.
\<close>

fun try_peers ::
  "(string \<Rightarrow> exchange) \<Rightarrow> (string \<Rightarrow> nat \<Rightarrow> nat \<times> go_error option) \<Rightarrow> string \<Rightarrow> int \<Rightarrow> int \<Rightarrow> string list \<Rightarrow>
   go_error option \<Rightarrow> FileServer \<times> bytes \<Rightarrow> (FileServer \<times> bytes) \<times> bool \<times> go_error option" where
  "try_peers talk wa fileID i cs [] lastErr (s, f) = ((s, f), False, lastErr)"
| "try_peers talk wa fileID i cs (peer # ps) lastErr (s, f) =
     (let k = length (sv_responseHandlers s); s1 = register_handler fileID i s
      in case talk peer of
           EncodeFails \<Rightarrow> try_peers talk wa fileID i cs ps lastErr (close_done k s1, f)
         | SendFails \<Rightarrow> try_peers talk wa fileID i cs ps lastErr (close_done k s1, f)
         | Response data \<Rightarrow>
             (case writeAndVerifyChunk (wa peer) data i cs f of
                (f', Some e) \<Rightarrow>
                  try_peers talk wa fileID i cs ps
                    (Some (Errorf (''chunk write failed from peer '' @ peer @ '': '' @ Error e)))
                    (close_done k (receive_response k s1), f')
              | (f', None) \<Rightarrow> ((close_done k (receive_response k s1), f'), True, lastErr))
         | ErrorMessage e \<Rightarrow>
             try_peers talk wa fileID i cs ps
               (Some (Errorf (''download failed from peer '' @ peer @ '': '' @ Error e)))
               (delete_peer peer (close_done k s1), f)
         | TimedOut \<Rightarrow>
             try_peers talk wa fileID i cs ps (Some (Errorf (''timeout waiting for peer '' @ peer)))
               (close_done k s1, f))"

text \<open>
  The attempts of \<^verbatim>\<open>downloadChunk\<close>: \<open>shuffle a\<close> is the order in which attempt \<open>a\<close> visits the peers
  and \<open>refresh a\<close> the effect of asking the tracker for peers.
\<close>

definition current_peers :: "string list \<Rightarrow> FileServer \<Rightarrow> string list" where
  "current_peers ord s = map (\<lambda>a. the (sv_peers s a)) (range_keys ord (sv_peers s))"

fun chunk_attempts ::
  "(nat \<Rightarrow> FileServer \<Rightarrow> FileServer \<times> go_error option) \<Rightarrow> (nat \<Rightarrow> string list) \<Rightarrow>
   (nat \<Rightarrow> string \<Rightarrow> exchange) \<Rightarrow> (nat \<Rightarrow> string \<Rightarrow> nat \<Rightarrow> nat \<times> go_error option) \<Rightarrow> string \<Rightarrow> int \<Rightarrow> int \<Rightarrow>
   nat \<Rightarrow> nat \<Rightarrow> go_error option \<Rightarrow> FileServer \<times> bytes \<Rightarrow> (FileServer \<times> bytes) \<times> go_error option" where
  "chunk_attempts refresh shuffle talk wa fileID i cs a 0 lastErr st =
     (st, Some (Errorf (''all peers failed after 3 attempts. last error: '' @
        (case lastErr of None \<Rightarrow> ''<nil>'' | Some e \<Rightarrow> Error e))))"
| "chunk_attempts refresh shuffle talk wa fileID i cs a (Suc n) lastErr (s, f) =
     (case (if current_peers (shuffle a) s = [] then refresh a s else (s, None)) of
        (s1, Some e) \<Rightarrow> chunk_attempts refresh shuffle talk wa fileID i cs (Suc a) n lastErr (s1, f)
      | (s1, None) \<Rightarrow>
          (case try_peers (talk a) (wa a) fileID i cs (current_peers (shuffle a) s1) lastErr (s1, f) of
             (st, True, _) \<Rightarrow> (st, None)
           | (st, False, lastErr') \<Rightarrow>
               chunk_attempts refresh shuffle talk wa fileID i cs (Suc a) n lastErr' st))"

definition downloadChunk ::
  "(nat \<Rightarrow> FileServer \<Rightarrow> FileServer \<times> go_error option) \<Rightarrow> (nat \<Rightarrow> string list) \<Rightarrow>
   (nat \<Rightarrow> string \<Rightarrow> exchange) \<Rightarrow> (nat \<Rightarrow> string \<Rightarrow> nat \<Rightarrow> nat \<times> go_error option) \<Rightarrow> string \<Rightarrow> int \<Rightarrow> int \<Rightarrow>
   FileServer \<times> bytes \<Rightarrow> (FileServer \<times> bytes) \<times> go_error option" where
  "downloadChunk refresh shuffle talk wa fileID chunkIndex chunkSize st =
     chunk_attempts refresh shuffle talk wa fileID chunkIndex chunkSize 0 3 None st"

subsection \<open>Downloading a file: the start\<close>

datatype main_state = Looping | Spawning "PieceInfo list" | Waiting | Returned "go_error option"

text \<open>
  What the goroutines of one download share: the piece table, the output file, the set
  \<^verbatim>\<open>activeDownloads\<close>, the pieces whose workers run (as often as there are workers for them),
  \<^verbatim>\<open>completedPieces\<close>, and where the main goroutine is.
\<close>

record download =
  dl_pm :: PieceManager
  dl_file :: bytes
  dl_active :: "int set"
  dl_running :: "int list"
  dl_completed :: nat
  dl_main :: main_state

definition init_peers :: "string list \<Rightarrow> int \<Rightarrow> (string \<rightharpoonup> string) \<Rightarrow> PieceManager \<Rightarrow> PieceManager" where
  "init_peers ord numChunks peers pm =
     fold (\<lambda>addr. UpdatePeerPieces addr (map int [0..<nat numChunks])) (range_keys ord peers) pm"

definition output_name :: "string \<Rightarrow> Metadata \<Rightarrow> string" where
  "output_name fileID m = ''downloaded_'' @ fileID @ md_FileExtension m"

text \<open>
  The sequential start of \<^verbatim>\<open>DownloadFile\<close>: the tracker's answer, the metadata, the peers and the
  piece table. The result is an error, or the metadata and the state in which the main loop begins.
  A negative chunk count panics (\<^verbatim>\<open>make\<close> with a negative size).
\<close>

definition DownloadFile_start ::
  "faults \<Rightarrow> (Metadata \<Rightarrow> bytes) \<Rightarrow> (string \<Rightarrow> go_error + FileInfo) \<Rightarrow> go_error + nat \<times> string \<Rightarrow>
   (FileServer \<Rightarrow> FileServer) \<Rightarrow> string list \<Rightarrow> string \<Rightarrow> filesystem \<Rightarrow> FileServer \<Rightarrow>
   (filesystem \<times> FileServer \<times> (go_error + Metadata \<times> download)) outcome" where
  "DownloadFile_start fl enc dec resp connect ord fileID fs s =
     (case resp of
        Inl e \<Rightarrow> Return (fs, s, Inl (Errorf (''failed to connect to tracker: '' @ Error e)))
      | Inr (code, body) \<Rightarrow>
          if code = 404 then
            Return (fs, s, Inl (Errorf (''file '' @ fileID @ '' is not available for download'')))
          else
            (case dec body of
               Inl e \<Rightarrow> Return (fs, s, Inl (Errorf (''failed to decode file info: '' @ Error e)))
             | Inr info \<Rightarrow>
                 if fi_NumPeers info = 0 then
                   Return (fs, s, Inl (Errorf (''file '' @ fileID @
                     '' exists but no peers are currently sharing it'')))
                 else
                   let meta = info_to_meta info
                   in case saveMetadata fl enc (Root (sv_store s)) meta fs of
                        (fs1, Some e) \<Rightarrow>
                          Return (fs1, s, Inl (Errorf (''failed to save metadata locally: '' @ Error e)))
                      | (fs1, None) \<Rightarrow>
                          let s1 = connect s
                          in case NewPieceManager (md_NumChunks meta) (md_ChunkHashes meta) of
                               Panic \<Rightarrow> Panic
                             | Return pm \<Rightarrow>
                                 if md_NumChunks meta < 0 \<and> range_keys ord (sv_peers s1) \<noteq> [] then Panic
                                 else
                                   (case create_fault fl (output_name fileID meta) of
                                      Some e \<Rightarrow>
                                        Return (fs1, s1, Inl (Errorf (''failed to create output file: '' @ Error e)))
                                    | None \<Rightarrow>
                                        if md_NumChunks meta < 0 then Panic
                                        else Return (fs1(output_name fileID meta \<mapsto> []), s1,
                                          Inr (meta, \<lparr>dl_pm = init_peers ord (md_NumChunks meta) (sv_peers s1) pm,
                                            dl_file = [], dl_active = {}, dl_running = [], dl_completed = 0,
                                            dl_main = Looping\<rparr>)))))"

text \<open>The deferred clean-up: the output file stays unless it is empty.\<close>

definition close_output :: "string \<Rightarrow> download \<Rightarrow> filesystem \<Rightarrow> filesystem" where
  "close_output name d fs = (if length (dl_file d) = 0 then fs(name := None) else fs(name \<mapsto> dl_file d))"

subsection \<open>Downloading a file: the main loop and the workers\<close>

definition maxConcurrent :: nat where
  "maxConcurrent = 10"

definition request_count :: "nat \<Rightarrow> int" where
  "request_count peerCount = int (maxConcurrent * (if peerCount > 1 then peerCount * 2 else 2))"

text \<open>
  The end of a worker: the status of its piece, then the deferred functions that take the piece off
  \<^verbatim>\<open>activeDownloads\<close>, release the semaphore and count the wait group down. The source does these under
  separate locks; here they are one step. Only the main loop could see a state in between, in which
  a finished worker still counts as running; it then waits, or hands out a piece marked missing
  before the worker's entry is deleted, which it also does for pieces in flight.
\<close>

definition worker_done :: "int \<Rightarrow> PieceStatus \<Rightarrow> download \<Rightarrow> download" where
  "worker_done i st d =
     d\<lparr>dl_pm := MarkPieceStatus i st (dl_pm d), dl_active := dl_active d - {i},
       dl_running := remove1 i (dl_running d)\<rparr>"

text \<open>
  The steps. \<open>cs\<close> is the chunk size and \<open>ok i data\<close> says what the peers may send for chunk \<open>i\<close>;
  \<open>sortSlice\<close> is \<^verbatim>\<open>sort.Slice\<close>. A worker writes what it receives, possibly several times, and ends
  with a successful write or as failed.
\<close>

inductive dl_step :: "sorter \<Rightarrow> int \<Rightarrow> (int \<Rightarrow> bytes \<Rightarrow> bool) \<Rightarrow> download \<Rightarrow> download \<Rightarrow> bool"
  for sortSlice :: sorter and cs :: int and ok :: "int \<Rightarrow> bytes \<Rightarrow> bool"
where
  complete: "dl_main d = Looping \<Longrightarrow> covers ord (pieces (dl_pm d)) \<Longrightarrow> IsComplete ord (dl_pm d) \<Longrightarrow>
    dl_step sortSlice cs ok d (d\<lparr>dl_main := Waiting\<rparr>)"
| no_peers: "dl_main d = Looping \<Longrightarrow> covers ord (pieces (dl_pm d)) \<Longrightarrow> \<not> IsComplete ord (dl_pm d) \<Longrightarrow>
    dl_step sortSlice cs ok d
      (d\<lparr>dl_main := Returned (Some (Errorf ''all peers disconnected and failed to find new peers''))\<rparr>)"
| fetch: "dl_main d = Looping \<Longrightarrow> covers ord (pieces (dl_pm d)) \<Longrightarrow> \<not> IsComplete ord (dl_pm d) \<Longrightarrow>
    covers ord1 (pieces (dl_pm d)) \<Longrightarrow> covers ord2 (pieces (dl_pm d)) \<Longrightarrow> 0 < peerCount \<Longrightarrow>
    GetNextPieces sortSlice below coin ord1 ord2 (request_count peerCount) (dl_pm d) = Return (pm', ps) \<Longrightarrow>
    dl_step sortSlice cs ok d
      (d\<lparr>dl_pm := pm',
         dl_main := (if ps \<noteq> [] then Spawning ps else if dl_active d = {} then Waiting else Looping)\<rparr>)"
| spawn: "dl_main d = Spawning (p # ps) \<Longrightarrow> length (dl_running d) < maxConcurrent \<Longrightarrow>
    dl_step sortSlice cs ok d
      (d\<lparr>dl_active := insert (pi_Index p) (dl_active d), dl_running := pi_Index p # dl_running d,
         dl_main := Spawning ps\<rparr>)"
| spawned: "dl_main d = Spawning [] \<Longrightarrow> dl_step sortSlice cs ok d (d\<lparr>dl_main := Looping\<rparr>)"
| worker_write: "i \<in> set (dl_running d) \<Longrightarrow> ok i data \<Longrightarrow>
    writeAndVerifyChunk wa data i cs (dl_file d) = (f', Some e) \<Longrightarrow>
    dl_step sortSlice cs ok d (d\<lparr>dl_file := f'\<rparr>)"
| worker_ok: "i \<in> set (dl_running d) \<Longrightarrow> ok i data \<Longrightarrow>
    writeAndVerifyChunk wa data i cs (dl_file d) = (f', None) \<Longrightarrow>
    dl_step sortSlice cs ok d (worker_done i PieceVerified (d\<lparr>dl_file := f', dl_completed := dl_completed d + 1\<rparr>))"
| worker_failed: "i \<in> set (dl_running d) \<Longrightarrow>
    dl_step sortSlice cs ok d (worker_done i PieceMissing d)"
| done_waiting: "dl_main d = Waiting \<Longrightarrow> dl_running d = [] \<Longrightarrow> covers ord (pieces (dl_pm d)) \<Longrightarrow>
    dl_step sortSlice cs ok d
      (d\<lparr>dl_main := Returned (if IsComplete ord (dl_pm d) then None
         else Some (Errorf ''download incomplete - some pieces could not be retrieved''))\<rparr>)"

inductive_cases dl_stepE: "dl_step sortSlice cs ok d d'"

text \<open>
  The whole of \<^verbatim>\<open>DownloadFile\<close>: it fails before its main loop begins, or the loop and the workers
  run until the main goroutine returns; meanwhile the node goes on serving the network and asks the
  tracker for more peers. The progress reports, which are only logged, are left out.
\<close>

inductive DownloadFile ::
  "string \<Rightarrow> filesystem \<Rightarrow> FileServer \<Rightarrow> filesystem \<Rightarrow> FileServer \<Rightarrow> go_error option \<Rightarrow> bool" where
  not_started: "DownloadFile_start fl enc dec resp connect ord fileID fs s = Return (fs1, s1, Inl e) \<Longrightarrow>
    network_step\<^sup>*\<^sup>* s (connect s) \<Longrightarrow> network_step\<^sup>*\<^sup>* s1 s' \<Longrightarrow> DownloadFile fileID fs s fs1 s' (Some e)"
| returned: "DownloadFile_start fl enc dec resp connect ord fileID fs s = Return (fs1, s1, Inr (meta, d0)) \<Longrightarrow>
    network_step\<^sup>*\<^sup>* s (connect s) \<Longrightarrow> network_step\<^sup>*\<^sup>* s1 s' \<Longrightarrow>
    (\<And>less xs. mset (sortSlice less xs) = mset xs) \<Longrightarrow>
    (dl_step sortSlice (md_ChunkSize meta) ok)\<^sup>*\<^sup>* d0 d \<Longrightarrow> dl_main d = Returned err \<Longrightarrow>
    DownloadFile fileID fs s (close_output (output_name fileID meta) d fs1) s' err"

text \<open>
  A download that is still running: the disk and the node at some moment of its loop, the output file
  holding what has been written so far.
\<close>

inductive DownloadFile_looping ::
  "string \<Rightarrow> filesystem \<Rightarrow> FileServer \<Rightarrow> filesystem \<Rightarrow> FileServer \<Rightarrow> bool" where
  looping: "DownloadFile_start fl enc dec resp connect ord fileID fs s = Return (fs1, s1, Inr (meta, d0)) \<Longrightarrow>
    network_step\<^sup>*\<^sup>* s (connect s) \<Longrightarrow> network_step\<^sup>*\<^sup>* s1 s' \<Longrightarrow>
    (\<And>less xs. mset (sortSlice less xs) = mset xs) \<Longrightarrow>
    (dl_step sortSlice (md_ChunkSize meta) ok)\<^sup>*\<^sup>* d0 d \<Longrightarrow>
    DownloadFile_looping fileID fs s (fs1(output_name fileID meta \<mapsto> dl_file d)) s'"

subsection \<open>What a write does\<close>

lemma length_write_at:
  "length (write_at f off d) = (if d = [] then length f else max (length f) (off + length d))"
  by (auto simp: write_at_def)

lemma nth_write_at:
  assumes "k < length f \<or> off \<le> k \<and> k < off + length d"
  shows "write_at f off d ! k = (if off \<le> k \<and> k < off + length d then d ! (k - off) else f ! k)"
  using assms by (auto simp: write_at_def nth_append min_def)

text \<open>Chunk \<open>j\<close> of a file of chunks of \<open>cs\<close> bytes holds \<open>d\<close>.\<close>

definition placed :: "nat \<Rightarrow> nat \<Rightarrow> bytes \<Rightarrow> bytes \<Rightarrow> bool" where
  "placed cs j d f \<longleftrightarrow> (\<forall>k < length d. j * cs + k < length f \<and> f ! (j * cs + k) = d ! k)"

lemma placed_write_self: "placed cs j d (write_at f (j * cs) d)"
  by (auto simp: placed_def length_write_at nth_write_at)

lemma chunks_disjoint:
  assumes "i \<noteq> j" and "k < cs" and "l < cs"
  shows "i * cs + k \<noteq> j * cs + (l :: nat)"
proof
  assume "i * cs + k = j * cs + l"
  then have "(i * cs + k) div cs = (j * cs + l) div cs" by simp
  with assms show False by simp
qed

lemma placed_write_other:
  assumes "placed cs j d f" and "i \<noteq> j" and "length d \<le> cs" and "length e \<le> cs"
  shows "placed cs j d (write_at f (i * cs) e)"
  unfolding placed_def
proof (intro allI impI)
  fix k assume k: "k < length d"
  then have old: "j * cs + k < length f" "f ! (j * cs + k) = d ! k" using assms(1) by (auto simp: placed_def)
  have "\<not> (i * cs \<le> j * cs + k \<and> j * cs + k < i * cs + length e)"
  proof
    assume in_e: "i * cs \<le> j * cs + k \<and> j * cs + k < i * cs + length e"
    then have "i * cs + (j * cs + k - i * cs) = j * cs + k" "j * cs + k - i * cs < cs" using assms(4) by auto
    then show False using chunks_disjoint [of i j "j * cs + k - i * cs" cs k] assms(2,3) k by auto
  qed
  then show "j * cs + k < length (write_at f (i * cs) e) \<and> write_at f (i * cs) e ! (j * cs + k) = d ! k"
    using old by (auto simp: length_write_at nth_write_at)
qed

lemma placed_write_prefix:
  assumes "placed cs j d f"
  shows "placed cs j d (write_at f (j * cs) (take n d))"
  using assms by (auto simp: placed_def length_write_at nth_write_at)

text \<open>Everything \<^verbatim>\<open>writeAndVerifyChunk\<close> does to the file: it writes prefixes of the data, at the end all of it.\<close>

definition write_prefixes :: "nat \<Rightarrow> bytes \<Rightarrow> nat list \<Rightarrow> bytes \<Rightarrow> bytes" where
  "write_prefixes off d ns f = fold (\<lambda>n f. write_at f off (take n d)) ns f"

lemma write_attempts_effect:
  "write_attempts wa d (int off) r n f = (f', err) \<Longrightarrow>
     \<exists>ns. f' = write_prefixes off d ns f \<and> (err = None \<longrightarrow> ns \<noteq> [] \<and> length d \<le> last ns)"
proof (induction n arbitrary: r f)
  case 0
  then show ?case by (auto simp: write_prefixes_def intro: exI [of _ "[]"])
next
  case (Suc n)
  obtain w e where w: "wa r = (w, e)" by fastforce
  let ?f = "write_at f off (take w d)"
  have one: "?f = write_prefixes off d [w] f" by (simp add: write_prefixes_def)
  have more: "\<exists>ns. f' = write_prefixes off d ns f \<and> (err = None \<longrightarrow> ns \<noteq> [] \<and> length d \<le> last ns)"
    if "write_attempts wa d (int off) (Suc r) n ?f = (f', err)"
  proof -
    from Suc.IH [OF that] obtain ns where "f' = write_prefixes off d ns ?f"
      "err = None \<longrightarrow> ns \<noteq> [] \<and> length d \<le> last ns" by blast
    then show ?thesis by (intro exI [of _ "w # ns"]) (auto simp: write_prefixes_def)
  qed
  have "file_WriteAt (wa r) d (int off) f = (?f, min w (length d), e)"
    by (simp add: file_WriteAt_def w)
  then consider "write_attempts wa d (int off) (Suc r) n ?f = (f', err)"
    | "f' = ?f" "err \<noteq> None" | "f' = ?f" "err = None" "min w (length d) = length d"
    using Suc.prems by (auto split: option.splits if_splits)
  then show ?case
  proof cases
    case 1
    then show ?thesis by (rule more)
  next
    case 2
    with one show ?thesis by blast
  next
    case 3
    with one show ?thesis by (intro exI [of _ "[w]"]) auto
  qed
qed

lemma write_prefixes_invariant:
  "(\<And>n f. P f \<Longrightarrow> P (write_at f off (take n d))) \<Longrightarrow> P f \<Longrightarrow> P (write_prefixes off d ns f)"
  by (induction ns arbitrary: f) (auto simp: write_prefixes_def)

lemma writeAndVerifyChunk_effect:
  assumes "writeAndVerifyChunk wa d (int i) (int cs) f = (f', err)" and "int (i * cs) < 9223372036854775808"
  shows "\<exists>ns. f' = write_prefixes (i * cs) d ns f \<and> (err = None \<longrightarrow> ns \<noteq> [] \<and> length d \<le> last ns \<and> length d \<le> cs)"
proof -
  have w: "wrap64 (int i * int cs) = int (i * cs)" using assms(2) by (simp add: wrap64_small)
  show ?thesis
  proof (cases "length d > cs")
    case True
    then show ?thesis using assms(1)
      by (intro exI [of _ "[]"]) (auto simp: writeAndVerifyChunk_def write_prefixes_def Let_def)
  next
    case False
    then show ?thesis using assms(1) write_attempts_effect [of wa d "i * cs" 0 3 f f' err]
      by (auto simp: writeAndVerifyChunk_def w Let_def simp del: of_nat_mult)
  qed
qed

lemma writeAndVerifyChunk_keeps:
  assumes "writeAndVerifyChunk wa d (int i) (int cs) f = (f', err)" and "int (i * cs) < 9223372036854775808"
    and "placed cs j e f" and "length e \<le> cs" and "length d \<le> cs" and "i = j \<Longrightarrow> d = e"
  shows "placed cs j e f'"
proof -
  obtain ns where "f' = write_prefixes (i * cs) d ns f" using writeAndVerifyChunk_effect [OF assms(1,2)] by blast
  moreover have "placed cs j e (write_at g (i * cs) (take n d))" if "placed cs j e g" for n g
  proof (cases "i = j")
    case True
    then show ?thesis using placed_write_prefix [OF that] assms(6) by simp
  next
    case False
    then show ?thesis using placed_write_other [OF that False assms(4)] assms(5) by simp
  qed
  ultimately show ?thesis using write_prefixes_invariant [of "placed cs j e"] assms(3) by blast
qed

lemma writeAndVerifyChunk_places:
  assumes "writeAndVerifyChunk wa d (int i) (int cs) f = (f', None)" and "int (i * cs) < 9223372036854775808"
  shows "placed cs i d f'"
proof -
  obtain ns where ns: "f' = write_prefixes (i * cs) d ns f" "ns \<noteq> []" "length d \<le> last ns"
    using writeAndVerifyChunk_effect [OF assms] by blast
  have "f' = write_at (write_prefixes (i * cs) d (butlast ns) f) (i * cs) (take (last ns) d)"
    unfolding ns(1) using append_butlast_last_id [OF ns(2)]
    by (metis (no_types, lifting) fold.simps fold_append comp_apply id_apply write_prefixes_def)
  then show ?thesis using ns(3) placed_write_self by simp
qed

lemma writeAndVerifyChunk_length:
  assumes "writeAndVerifyChunk wa d (int i) (int cs) f = (f', err)" and "int (i * cs) < 9223372036854775808"
    and "length f \<le> n" and "d \<noteq> [] \<Longrightarrow> i * cs + length d \<le> n"
  shows "length f' \<le> n"
proof -
  obtain ns where "f' = write_prefixes (i * cs) d ns f" using writeAndVerifyChunk_effect [OF assms(1,2)] by blast
  moreover have "length (write_at g (i * cs) (take k d)) \<le> n" if "length g \<le> n" for k g
    using that assms(4) by (cases "d = []") (auto simp: length_write_at)
  ultimately show ?thesis using write_prefixes_invariant [of "\<lambda>f. length f \<le> n"] assms(3) by blast
qed

lemma writeAndVerifyChunk_clean:
  assumes "length d \<le> cs" and "wa 0 = (length d, None)" and "int (i * cs) < 9223372036854775808"
  shows "writeAndVerifyChunk wa d (int i) (int cs) f = (write_at f (i * cs) d, None)"
proof -
  have w: "wrap64 (int i * int cs) = int (i * cs)" using assms(3) by (simp add: wrap64_small)
  have "file_WriteAt (wa 0) d (int (i * cs)) f = (write_at f (i * cs) d, length d, None)"
    using assms(2) by (simp add: file_WriteAt_def del: of_nat_mult)
  then have "write_attempts wa d (int (i * cs)) 0 (Suc 2) f = (write_at f (i * cs) d, None)"
    by (simp only: write_attempts.simps) simp
  then have "write_attempts wa d (int (i * cs)) 0 3 f = (write_at f (i * cs) d, None)"
    by (simp only: eval_nat_numeral)
  then show ?thesis using assms(1) w by (simp add: writeAndVerifyChunk_def Let_def del: of_nat_mult)
qed

text \<open>
  C14: Writing one chunk. Data longer than a chunk are refused and the file stays as it is. Whatever
  write errors occur, bytes of the file outside chunk \<open>i\<close> keep their values. When success is
  reported, chunk \<open>i\<close> of the file holds the data. Without write errors it is reported at once.
\<close>

theorem writeAndVerifyChunk_spec:
  assumes "writeAndVerifyChunk wa d (int i) (int cs) f = (f', err)" and "int (i * cs) < 9223372036854775808"
  shows "(length d > cs \<longrightarrow> f' = f \<and> err \<noteq> None) \<and>
    (length d \<le> cs \<longrightarrow> (\<forall>k < length f. k < i * cs \<or> i * cs + cs \<le> k \<longrightarrow> k < length f' \<and> f' ! k = f ! k)) \<and>
    (err = None \<longrightarrow> placed cs i d f') \<and>
    (length d \<le> cs \<and> wa 0 = (length d, None) \<longrightarrow> f' = write_at f (i * cs) d \<and> err = None)"
proof (intro conjI impI allI)
  assume "length d > cs"
  then show "f' = f" "err \<noteq> None" using assms(1) by (auto simp: writeAndVerifyChunk_def Let_def)
next
  fix k assume d: "length d \<le> cs" and k: "k < length f" "k < i * cs \<or> i * cs + cs \<le> k"
  obtain ns where ns: "f' = write_prefixes (i * cs) d ns f" using writeAndVerifyChunk_effect [OF assms] by blast
  have "k < length (write_at g (i * cs) (take n d)) \<and> write_at g (i * cs) (take n d) ! k = f ! k"
    if "k < length g \<and> g ! k = f ! k" for n g
    using that d k(2) by (auto simp: length_write_at nth_write_at)
  then have "k < length f' \<and> f' ! k = f ! k"
    unfolding ns using k(1) by (intro write_prefixes_invariant [where P = "\<lambda>g. k < length g \<and> g ! k = f ! k"]) auto
  then show "k < length f'" "f' ! k = f ! k" by blast+
next
  assume "err = None"
  then show "placed cs i d f'" using writeAndVerifyChunk_places assms by simp
next
  assume d: "length d \<le> cs \<and> wa 0 = (length d, None)"
  then have "(f', err) = (write_at f (i * cs) d, None)"
    using assms writeAndVerifyChunk_clean by metis
  then show "f' = write_at f (i * cs) d" "err = None" by simp_all
qed

subsection \<open>What the loop guarantees\<close>

text \<open>
  \<open>dat i\<close> is what the peers send for chunk \<open>i\<close>: at most \<open>cs\<close> bytes, ending before position \<open>L\<close>.
  Every verified chunk is in the file, the file is not longer than \<open>L\<close>, only existing pieces are
  being fetched, and the download returns success only when every piece is verified.
\<close>

definition sends :: "(nat \<Rightarrow> bytes) \<Rightarrow> int \<Rightarrow> bytes \<Rightarrow> bool" where
  "sends dat i data \<longleftrightarrow> data = dat (nat i)"

definition dat_ok :: "nat \<Rightarrow> nat \<Rightarrow> nat \<Rightarrow> (nat \<Rightarrow> bytes) \<Rightarrow> bool" where
  "dat_ok cs n L dat \<longleftrightarrow> 0 < cs \<and> int (n * cs) < 9223372036854775808 \<and>
     (\<forall>i < n. length (dat i) \<le> cs \<and> (dat i \<noteq> [] \<longrightarrow> i * cs + length (dat i) \<le> L))"

fun queue :: "main_state \<Rightarrow> PieceInfo list" where
  "queue (Spawning ps) = ps"
| "queue _ = []"

definition dl_inv :: "nat \<Rightarrow> nat \<Rightarrow> nat \<Rightarrow> (nat \<Rightarrow> bytes) \<Rightarrow> download \<Rightarrow> bool" where
  "dl_inv cs n L dat d \<longleftrightarrow>
     pm_inv (dl_pm d) \<and> numPieces (dl_pm d) = int n \<and> length (dl_file d) \<le> L \<and>
     (\<forall>i < n. \<forall>p. pieces (dl_pm d) (int i) = Some p \<longrightarrow> pi_Status p = PieceVerified \<longrightarrow> placed cs i (dat i) (dl_file d)) \<and>
     set (dl_running d) \<union> pi_Index ` set (queue (dl_main d)) \<subseteq> {0..<int n} \<and>
     (dl_main d = Returned None \<longrightarrow>
        (\<forall>i < n. \<exists>p. pieces (dl_pm d) (int i) = Some p \<and> pi_Status p = PieceVerified) \<and> dl_running d = [])"

lemma GetNextPieces_step:
  assumes "pm_inv pm" "covers ord1 (pieces pm)" "covers ord2 (pieces pm)"
    and "\<And>less xs. mset (sortSlice less xs) = mset xs"
    and "GetNextPieces sortSlice below coin ord1 ord2 (request_count c) pm = Return (pm', ps)"
  shows "pm' = fold (mark PieceRequested) (map pi_Index ps) pm"
    and "\<And>p. p \<in> set ps \<Longrightarrow> pieces pm (pi_Index p) = Some p \<and> eligible pm (pi_Index p)"
proof -
  let ?cs = "sortSlice (piece_less below coin) (candidates ord1 ord2 pm)"
  have "0 \<le> request_count c" by (simp add: request_count_def)
  with assms have r: "pm' = fold (mark PieceRequested) (map pi_Index (take (nat (request_count c)) ?cs)) pm"
    "ps = take (nat (request_count c)) ?cs"
    using GetNextPieces_eq [OF assms(1-4) _ refl] by auto
  then show "pm' = fold (mark PieceRequested) (map pi_Index ps) pm" by simp
  fix p assume "p \<in> set ps"
  then have "p \<in> set ?cs" using r(2) in_set_takeD by metis
  then have "p \<in> set (candidates ord1 ord2 pm)" using assms(4) by (metis set_mset_mset)
  then show "pieces pm (pi_Index p) = Some p \<and> eligible pm (pi_Index p)"
    using set_candidates [OF assms(1-3)] by simp
qed

lemma numPieces_fold_mark [simp]: "numPieces (fold (mark st) is pm) = numPieces pm"
  by (induction "is" arbitrary: pm) simp_all

lemma fold_mark_verified:
  assumes "pieces (fold (mark PieceRequested) is pm) i = Some p" and "pi_Status p = PieceVerified"
  shows "pieces pm i = Some p"
  using assms by (auto simp: pieces_fold_mark split: if_splits)

lemma dl_inv_running:
  assumes "dl_inv cs n L dat d" and "i \<in> set (dl_running d)"
  shows "\<exists>j. i = int j \<and> j < n"
proof -
  have "i \<in> {0..<int n}" using assms by (auto simp: dl_inv_def)
  then show ?thesis by (intro exI [of _ "nat i"]) auto
qed

lemma dl_inv_file:
  assumes inv: "dl_inv cs n L dat d" and ok: "dat_ok cs n L dat" and j: "j < n"
    and w: "writeAndVerifyChunk wa (dat j) (int j) (int cs) (dl_file d) = (f', err)"
  shows "length f' \<le> L \<and>
    (\<forall>i < n. \<forall>p. pieces (dl_pm d) (int i) = Some p \<longrightarrow> pi_Status p = PieceVerified \<longrightarrow> placed cs i (dat i) f') \<and>
    (err = None \<longrightarrow> placed cs j (dat j) f')"
proof (intro conjI allI impI)
  have "j * cs \<le> n * cs" using j by simp
  then have off: "int (j * cs) < 9223372036854775808"
    using ok unfolding dat_ok_def by (meson of_nat_le_iff order_le_less_trans)
  show "length f' \<le> L"
    using writeAndVerifyChunk_length [OF w off, of L] inv ok j by (simp add: dl_inv_def dat_ok_def)
  show "placed cs j (dat j) f'" if "err = None"
    using writeAndVerifyChunk_places [of wa "dat j" j cs "dl_file d" f'] w off that by simp
  fix i p assume "i < n" "pieces (dl_pm d) (int i) = Some p" "pi_Status p = PieceVerified"
  then show "placed cs i (dat i) f'"
    using writeAndVerifyChunk_keeps [OF w off, of i "dat i"] inv ok j by (auto simp: dl_inv_def dat_ok_def)
qed

lemma dl_inv_fetch:
  assumes inv: "dl_inv cs n L dat d" and perm: "\<And>less xs. mset (sortSlice less xs) = mset xs"
    and cov: "covers ord1 (pieces (dl_pm d))" "covers ord2 (pieces (dl_pm d))"
    and next_ps: "GetNextPieces sortSlice below coin ord1 ord2 (request_count c) (dl_pm d) = Return (pm', ps)"
    and main: "m = (if ps \<noteq> [] then Spawning ps else if dl_active d = {} then Waiting else Looping)"
  shows "dl_inv cs n L dat (d\<lparr>dl_pm := pm', dl_main := m\<rparr>)"
proof -
  have pm: "pm_inv (dl_pm d)" and dom: "dom (pieces (dl_pm d)) = {i. 0 \<le> i \<and> i < int n}"
    using inv by (simp_all add: dl_inv_def pm_inv_def)
  note step = GetNextPieces_step [OF pm cov perm next_ps]
  have "pm_inv pm'" using GetNextPieces_inv [OF next_ps pm] .
  moreover have "numPieces pm' = int n" using inv step(1) by (simp add: dl_inv_def)
  moreover have "pi_Index p \<in> {0..<int n}" if "p \<in> set ps" for p
  proof -
    have "pi_Index p \<in> dom (pieces (dl_pm d))" using step(2) [OF that] by blast
    then show ?thesis using dom by simp
  qed
  then have "pi_Index ` set ps \<subseteq> {0..<int n}" by blast
  ultimately show ?thesis
    using inv step(1) by (auto simp: dl_inv_def main dest: fold_mark_verified split: if_splits)
qed

lemma dl_inv_step:
  assumes perm: "\<And>less xs. mset (sortSlice less xs) = mset xs" and ok: "dat_ok cs n L dat"
    and inv: "dl_inv cs n L dat d" and step: "dl_step sortSlice (int cs) (sends dat) d d'"
  shows "dl_inv cs n L dat d'"
  using step
proof cases
  case (fetch ord ord1 ord2 peerCount below coin pm' ps)
  then show ?thesis using dl_inv_fetch [OF inv perm] by simp
next
  case (worker_write i data wa f' e)
  obtain j where j: "i = int j" "j < n" using dl_inv_running [OF inv worker_write(2)] by blast
  have "writeAndVerifyChunk wa (dat j) (int j) (int cs) (dl_file d) = (f', Some e)"
    using worker_write(3,4) j by (simp add: sends_def)
  from dl_inv_file [OF inv ok j(2) this] inv worker_write(1,2) show ?thesis by (auto simp: dl_inv_def)
next
  case (worker_ok i data wa f')
  obtain j where j: "i = int j" "j < n" using dl_inv_running [OF inv worker_ok(2)] by blast
  have "writeAndVerifyChunk wa (dat j) (int j) (int cs) (dl_file d) = (f', None)"
    using worker_ok(3,4) j by (simp add: sends_def)
  note content = dl_inv_file [OF inv ok j(2) this]
  have "pm_inv (mark PieceVerified i (dl_pm d))" using inv by (simp add: dl_inv_def mark_inv)
  moreover have "set (remove1 i (dl_running d)) \<subseteq> set (dl_running d)" by (rule set_remove1_subset)
  ultimately show ?thesis
    using inv content worker_ok(1,2) j by (auto simp: dl_inv_def worker_done_def MarkPieceStatus_def)
next
  case (worker_failed i)
  have "pm_inv (mark PieceMissing i (dl_pm d))" using inv by (simp add: dl_inv_def mark_inv)
  moreover have "set (remove1 i (dl_running d)) \<subseteq> set (dl_running d)" by (rule set_remove1_subset)
  ultimately show ?thesis
    using inv worker_failed by (auto simp: dl_inv_def worker_done_def MarkPieceStatus_def split: if_splits)
next
  case (done_waiting ord)
  have "\<exists>p. pieces (dl_pm d) (int i) = Some p" if "i < n" for i
  proof -
    have "int i \<in> dom (pieces (dl_pm d))" using inv that by (simp add: dl_inv_def pm_inv_def)
    then show ?thesis by blast
  qed
  then show ?thesis
    using inv done_waiting IsComplete_iff [OF done_waiting(4)] by (auto simp: dl_inv_def) blast+
qed (use inv in \<open>auto simp: dl_inv_def\<close>)

lemma dl_inv_steps:
  assumes "\<And>less xs. mset (sortSlice less xs) = mset xs" and "dat_ok cs n L dat"
    and "(dl_step sortSlice (int cs) (sends dat))\<^sup>*\<^sup>* d d'" and "dl_inv cs n L dat d"
  shows "dl_inv cs n L dat d'"
  using assms(3,4) by (induction rule: rtranclp_induct) (auto intro: dl_inv_step [OF assms(1,2)])

text \<open>The piece table when the main loop begins: every piece missing, with the peers connected by then.\<close>

lemma UpdatePeerPieces_piece:
  "pieces pm i = Some q \<Longrightarrow>
     \<exists>p. pieces (UpdatePeerPieces a idxs pm) i = Some p \<and> pi_Status p = pi_Status q \<and>
       pi_Peers p = (if i \<in> set idxs then insert a (pi_Peers q) else pi_Peers q)"
  unfolding UpdatePeerPieces_def
proof (induction idxs arbitrary: pm q)
  case (Cons j idxs)
  obtain q' where q': "pieces (update_piece a j pm) i = Some q'" "pi_Status q' = pi_Status q"
    "pi_Peers q' = (if i = j then insert a (pi_Peers q) else pi_Peers q)"
    using Cons.prems by (cases "i = j") (simp_all add: pieces_update_piece)
  from Cons.IH [OF this(1)] show ?case using q'(2,3) by auto
qed simp

lemma init_peers_piece:
  assumes "pieces pm (int i) = Some q" and "int i < n"
  shows "\<exists>p. pieces (init_peers ord n peers pm) (int i) = Some p \<and> pi_Status p = pi_Status q \<and>
    pi_Peers p = set (range_keys ord peers) \<union> pi_Peers q"
proof -
  have "\<exists>p. pieces (fold (\<lambda>addr. UpdatePeerPieces addr (map int [0..<nat n])) addrs pm) (int i) = Some p \<and>
      pi_Status p = pi_Status q \<and> pi_Peers p = set addrs \<union> pi_Peers q" for addrs
    using assms(1)
  proof (induction addrs arbitrary: pm q)
    case (Cons a addrs)
    have "int i \<in> set (map int [0..<nat n])" using assms(2) by auto
    with UpdatePeerPieces_piece [OF Cons.prems, of a "map int [0..<nat n]"] obtain q' where
      "pieces (UpdatePeerPieces a (map int [0..<nat n]) pm) (int i) = Some q'"
      "pi_Status q' = pi_Status q" "pi_Peers q' = insert a (pi_Peers q)" by auto
    with Cons.IH [of _ q'] show ?case by fastforce
  qed simp
  then show ?thesis unfolding init_peers_def by blast
qed

lemma init_peers_inv:
  "pm_inv pm \<Longrightarrow> pm_inv (init_peers ord n peers pm)"
  "numPieces (init_peers ord n peers pm) = numPieces pm"
proof -
  have "pm_inv (fold (\<lambda>addr. UpdatePeerPieces addr (map int [0..<nat n])) addrs pm)" if "pm_inv pm" for addrs
    using that by (induction addrs arbitrary: pm) (simp_all add: UpdatePeerPieces_inv)
  then show "pm_inv pm \<Longrightarrow> pm_inv (init_peers ord n peers pm)" by (simp add: init_peers_def)
  have "numPieces (UpdatePeerPieces addr idxs pm) = numPieces pm" for addr idxs pm
    unfolding UpdatePeerPieces_def by (rule numPieces_fold) simp
  then show "numPieces (init_peers ord n peers pm) = numPieces pm"
    unfolding init_peers_def by (intro numPieces_fold)
qed

lemma DownloadFile_start_state:
  assumes "DownloadFile_start fl enc dec resp connect ord fileID fs s = Return (fs1, s1, Inr (meta, d))"
  shows "\<exists>pm n. md_NumChunks meta = int n \<and> NewPieceManager (int n) (md_ChunkHashes meta) = Return pm \<and>
    d = \<lparr>dl_pm = init_peers ord (int n) (sv_peers s1) pm, dl_file = [], dl_active = {}, dl_running = [],
         dl_completed = 0, dl_main = Looping\<rparr>"
proof -
  have "0 \<le> md_NumChunks meta" "\<exists>pm. NewPieceManager (md_NumChunks meta) (md_ChunkHashes meta) = Return pm \<and>
    d = \<lparr>dl_pm = init_peers ord (md_NumChunks meta) (sv_peers s1) pm, dl_file = [], dl_active = {}, dl_running = [],
         dl_completed = 0, dl_main = Looping\<rparr>"
    using assms by (auto simp: DownloadFile_start_def Let_def
        split: sum.splits prod.splits if_splits option.splits outcome.splits)
  then show ?thesis by (metis nat_0_le)
qed

lemma DownloadFile_start_server:
  assumes "DownloadFile_start fl enc dec resp connect ord fileID fs s = Return (fs1, s1, r)"
  shows "s1 = s \<or> s1 = connect s"
  using assms by (auto simp: DownloadFile_start_def Let_def
      split: sum.splits prod.splits if_splits option.splits outcome.splits)

text \<open>A download neither shares nor unshares anything.\<close>

lemma DownloadFile_keeps:
  "DownloadFile fileID fs s fs' s' err \<Longrightarrow> sv_activeFiles s' = sv_activeFiles s \<and> sv_opts s' = sv_opts s"
  by (induction rule: DownloadFile.induct) (metis DownloadFile_start_server network_steps_keep)+

lemma DownloadFile_quitch: "DownloadFile fileID fs s fs' s' err \<Longrightarrow> sv_quitch s' = sv_quitch s"
  by (induction rule: DownloadFile.induct) (metis DownloadFile_start_server network_steps_quitch)+

lemma DownloadFile_looping_keeps:
  "DownloadFile_looping fileID fs s fs' s' \<Longrightarrow> sv_activeFiles s' = sv_activeFiles s \<and> sv_opts s' = sv_opts s"
  by (induction rule: DownloadFile_looping.induct) (metis DownloadFile_start_server network_steps_keep)

lemma DownloadFile_start_meta:
  assumes "DownloadFile_start fl enc dec (Inr (code, body)) connect ord fileID fs s = Return (fs1, s1, Inr (meta, d))"
    and "dec body = Inr info"
  shows "meta = info_to_meta info"
  using assms by (auto simp: DownloadFile_start_def Let_def
      split: prod.splits if_splits option.splits outcome.splits)

lemma DownloadFile_start_ok:
  assumes "code \<noteq> 404" and "dec body = Inr info" and "fi_NumPeers info \<noteq> 0" and "0 \<le> fi_NumChunks info"
    and "fi_NumChunks info \<le> int (length (fi_ChunkHashes info))"
    and "mkdir_fault fl (Root (sv_store s)) = None"
    and "create_fault fl (metadata_path (Root (sv_store s)) (fi_FileID info)) = None"
    and "write_fault fl (metadata_path (Root (sv_store s)) (fi_FileID info)) = None"
    and "create_fault fl (output_name fileID (info_to_meta info)) = None"
  shows "\<exists>fs1 d0. DownloadFile_start fl enc dec (Inr (code, body)) connect ord fileID fs s =
    Return (fs1, connect s, Inr (info_to_meta info, d0))"
proof -
  have "md_FileID (info_to_meta info) = fi_FileID info" by (simp add: info_to_meta_def)
  then obtain fs1 where save: "saveMetadata fl enc (Root (sv_store s)) (info_to_meta info) fs = (fs1, None)"
    using saveMetadata_ok [of fl "Root (sv_store s)" "info_to_meta info" enc fs] assms(6-8) by simp
  obtain pm where "NewPieceManager (fi_NumChunks info) (fi_ChunkHashes info) = Return pm"
    using NewPieceManager_Return [OF assms(5)] by blast
  then have pm: "NewPieceManager (md_NumChunks (info_to_meta info)) (md_ChunkHashes (info_to_meta info)) = Return pm"
    and n: "\<not> md_NumChunks (info_to_meta info) < 0" using assms(4) by (simp_all add: info_to_meta_def)
  show ?thesis using assms(1-3,9) save pm n by (simp add: DownloadFile_start_def Let_def)
qed

lemma DownloadFile_start_piece:
  assumes "DownloadFile_start fl enc dec resp connect ord fileID fs s = Return (fs1, s1, Inr (meta, d))"
    and "md_NumChunks meta = int n"
  shows "pm_inv (dl_pm d) \<and> numPieces (dl_pm d) = int n \<and>
    (\<forall>i < n. \<exists>p. pieces (dl_pm d) (int i) = Some p \<and> pi_Status p = PieceMissing \<and>
       pi_Peers p = set (range_keys ord (sv_peers s1)))"
proof -
  obtain pm where new: "NewPieceManager (int n) (md_ChunkHashes meta) = Return pm"
    and d: "dl_pm d = init_peers ord (int n) (sv_peers s1) pm"
    using DownloadFile_start_state [OF assms(1)] assms(2) by auto
  have le: "int n \<le> int (length (md_ChunkHashes meta))"
  proof (rule ccontr)
    assume "\<not> ?thesis"
    then have "NewPieceManager (int n) (md_ChunkHashes meta) = Panic"
      by (simp add: NewPieceManager_def init_pieces_Panic)
    with new show False by simp
  qed
  have pm: "pieces pm (int i) = Some (new_piece i (md_ChunkHashes meta ! i))" if "i < n" for i
    using new that unfolding NewPieceManager_Return [OF le] by auto
  have "numPieces pm = int n" using new unfolding NewPieceManager_Return [OF le] by auto
  with NewPieceManager_inv [OF new] show ?thesis
    unfolding d using init_peers_inv init_peers_piece [OF pm, where n = "int n" and ord = ord and peers = "sv_peers s1"]
    by (auto simp: new_piece_def)
qed

lemma DownloadFile_start_some:
  assumes "DownloadFile_start fl enc dec resp connect ord fileID fs s = Return (fs1, s1, Inr (meta, d))"
    and "md_NumChunks meta = int n" and "pieces (dl_pm d) i = Some p"
  shows "pi_Status p = PieceMissing \<and> pi_Peers p = set (range_keys ord (sv_peers s1))"
proof -
  note start = DownloadFile_start_piece [OF assms(1,2)]
  have "i \<in> dom (pieces (dl_pm d))" using assms(3) by blast
  then have i: "i = int (nat i)" "nat i < n" using start by (auto simp: pm_inv_def)
  then obtain q where "pieces (dl_pm d) (int (nat i)) = Some q" "pi_Status q = PieceMissing"
    "pi_Peers q = set (range_keys ord (sv_peers s1))" using start by blast
  then show ?thesis using assms(3) i(1) by simp
qed

lemma dl_inv_init:
  assumes "DownloadFile_start fl enc dec resp connect ord fileID fs s = Return (fs1, s1, Inr (meta, d))"
    and "md_NumChunks meta = int n"
  shows "dl_inv cs n L dat d"
proof -
  have "dl_main d = Looping" "dl_running d = []" "dl_file d = []"
    using DownloadFile_start_state [OF assms(1)] by auto
  moreover have "pi_Status p \<noteq> PieceVerified" if "i < n" "pieces (dl_pm d) (int i) = Some p" for i p
    using DownloadFile_start_piece [OF assms] that by fastforce
  ultimately show ?thesis using DownloadFile_start_piece [OF assms] by (auto simp: dl_inv_def)
qed

lemma blocks_dat_ok:
  assumes "0 < cs" and "n = num_chunks cs (length content)" and "int (length content) + int cs < 9223372036854775808"
  shows "dat_ok cs n (length content) (block cs content)"
proof -
  have "n * cs < length content + cs" using num_chunks_bound [OF assms(1)] assms(2) by simp
  then have "int (n * cs) < 9223372036854775808" using assms(3) by linarith
  moreover have "i * cs + length (block cs content i) \<le> length content" if "block cs content i \<noteq> []" for i
    using that by (auto simp: block_def)
  ultimately show ?thesis using assms(1) by (auto simp: dat_ok_def length_block)
qed

lemma placed_all:
  assumes "0 < cs" and "n = num_chunks cs (length content)" and "length f \<le> length content"
    and "\<And>i. i < n \<Longrightarrow> placed cs i (block cs content i) f"
  shows "f = content"
proof (rule nth_equalityI)
  have pos: "k < length f \<and> f ! k = content ! k" if k: "k < length content" for k
  proof -
    let ?i = "k div cs" and ?r = "k mod cs"
    have eq: "?i * cs + ?r = k" by simp
    have r: "?r < length (block cs content ?i)"
    proof -
      have "?r < length content - ?i * cs" using k eq by linarith
      then show ?thesis using assms(1) by (simp add: block_def)
    qed
    moreover have "?i < n" unfolding assms(2) num_chunks_less [OF assms(1)] using k by (metis eq le_add1 order_le_less_trans)
    ultimately have "k < length f" "f ! k = block cs content ?i ! ?r"
      using assms(4) [of ?i] eq unfolding placed_def by force+
    then show ?thesis using r eq by (auto simp: block_def)
  qed
  show "length f = length content"
  proof (cases "length content")
    case (Suc m)
    then show ?thesis using pos [of m] assms(3) by simp
  qed (use assms(3) in simp)
  then show "\<And>k. k < length f \<Longrightarrow> f ! k = content ! k" using pos by simp
qed

lemma finished_download:
  assumes "DownloadFile_start fl enc dec resp connect ord fileID fs s = Return (fs1, s1, Inr (meta, d0))"
    and "0 < cs" and "md_ChunkSize meta = int cs" and "md_NumChunks meta = int (num_chunks cs (length content))"
    and "int (length content) + int cs < 9223372036854775808"
    and "\<And>less xs. mset (sortSlice less xs) = mset xs"
    and "(dl_step sortSlice (md_ChunkSize meta) (\<lambda>i data. data = block cs content (nat i)))\<^sup>*\<^sup>* d0 d"
    and "dl_main d = Returned None"
  shows "dl_file d = content"
proof -
  let ?n = "num_chunks cs (length content)"
  have step: "(\<lambda>i data. data = block cs content (nat i)) = sends (block cs content)"
    by (intro ext) (simp add: sends_def)
  have "dl_inv cs ?n (length content) (block cs content) d"
    using dl_inv_steps [of sortSlice, OF assms(6) blocks_dat_ok [OF assms(2) refl assms(5)]] assms(7)
      dl_inv_init [OF assms(1,4)] unfolding step assms(3) by blast
  then have "length (dl_file d) \<le> length content"
    "\<And>i. i < ?n \<Longrightarrow> placed cs i (block cs content i) (dl_file d)"
    using assms(8) unfolding dl_inv_def by blast+
  then show ?thesis by (rule placed_all [OF assms(2) refl])
qed

text \<open>Peers that may send less give fewer runs.\<close>

lemma dl_step_mono:
  assumes "\<And>i data. ok i data \<Longrightarrow> ok' i data"
  shows "dl_step sortSlice cs ok d d' \<Longrightarrow> dl_step sortSlice cs ok' d d'"
  by (induction rule: dl_step.induct) (blast intro: dl_step.intros assms)+

lemma dl_steps_mono:
  assumes "\<And>i data. ok i data \<Longrightarrow> ok' i data"
  shows "(dl_step sortSlice cs ok)\<^sup>*\<^sup>* d d' \<Longrightarrow> (dl_step sortSlice cs ok')\<^sup>*\<^sup>* d d'"
proof (induction rule: rtranclp_induct)
  case (step y z)
  have "dl_step sortSlice cs ok' y z" by (rule dl_step_mono [OF assms step.hyps(2)])
  then show ?case by (rule rtranclp.rtrancl_into_rtrancl [OF step.IH])
qed simp

subsection \<open>Example\<close>

theorem writeAndVerifyChunk_spec_witness:
  "\<exists>f' err. writeAndVerifyChunk (\<lambda>k. if k = 0 then (1, Some EOF) else (2, None)) [8, 9] 1 2 [1, 2, 3] = (f', err) \<and>
    (err = None \<longrightarrow> placed 2 1 [8, 9] f') \<and> f' ! 0 = 1"
proof -
  let ?wa = "\<lambda>k. if k = 0 then (1, Some EOF) else (2, None)"
  obtain f' err where w: "writeAndVerifyChunk ?wa [8, 9] (int 1) (int 2) [1, 2, 3] = (f', err)" by fastforce
  from writeAndVerifyChunk_spec [OF w] have "err = None \<longrightarrow> placed 2 1 [8, 9] f'" "f' ! 0 = 1" by auto
  with w show ?thesis by auto
qed

end
