(* ===== verification/Download_Termination.thy ===== *)
theory Download_Termination
  imports Download
begin

section \<open>Termination of a download (server.go: DownloadFile)\<close>

text \<open>
  Runs of the download system in which nothing fails: the node keeps its peers and every worker ends
  with a successful write. The main loop requests pieces again and again while they are in
  flight, so it is not obvious that such a run ends. It does: the semaphore bounds the number of workers, and
  a lexicographic measure of the unverified pieces, the free slots of the semaphore and the position
  of the main goroutine decreases with every step. No such run gets stuck before it returns.
\<close>

text \<open>
  A step that is no failure: it completes a piece, or it moves the main goroutine other than to the
  error that there are no peers. Steps that leave everything as it was are not counted.
\<close>

definition calm :: "download \<Rightarrow> download \<Rightarrow> bool" where
  "calm d d' \<longleftrightarrow>
     (if dl_main d' = dl_main d then dl_completed d' = dl_completed d + 1
      else dl_main d' \<noteq> Returned (Some (Errorf ''all peers disconnected and failed to find new peers'')))"

definition calm_step :: "sorter \<Rightarrow> int \<Rightarrow> (int \<Rightarrow> bytes \<Rightarrow> bool) \<Rightarrow> download \<Rightarrow> download \<Rightarrow> bool" where
  "calm_step sortSlice cs ok d d' \<longleftrightarrow> dl_step sortSlice cs ok d d' \<and> calm d d'"

lemma calm_stepI: "dl_step sortSlice cs ok d d' \<Longrightarrow> calm d d' \<Longrightarrow> \<exists>d'. calm_step sortSlice cs ok d d'"
  by (auto simp: calm_step_def)

lemma calm_steps_dl: "(calm_step sortSlice cs ok)\<^sup>*\<^sup>* d d' \<Longrightarrow> (dl_step sortSlice cs ok)\<^sup>*\<^sup>* d d'"
  by (induction rule: rtranclp_induct) (auto simp: calm_step_def intro: rtranclp.rtrancl_into_rtrancl)

subsection \<open>What holds as long as nothing fails\<close>

definition unverified :: "download \<Rightarrow> int set" where
  "unverified d = {i. \<exists>p. pieces (dl_pm d) i = Some p \<and> pi_Status p \<noteq> PieceVerified}"

definition open_piece :: "PieceInfo \<Rightarrow> bool" where
  "open_piece p \<longleftrightarrow> pi_Peers p \<noteq> {} \<and> pi_Status p \<in> {PieceMissing, PieceRequested, PieceVerified}"

definition live :: "nat \<Rightarrow> download \<Rightarrow> bool" where
  "live n d \<longleftrightarrow> pm_inv (dl_pm d) \<and> numPieces (dl_pm d) = int n \<and>
     (\<forall>i p. pieces (dl_pm d) i = Some p \<longrightarrow> open_piece p) \<and>
     length (dl_running d) \<le> maxConcurrent \<and> set (dl_running d) \<subseteq> {0..<int n} \<and>
     pi_Index ` set (queue (dl_main d)) \<subseteq> {0..<int n} \<and>
     (dl_main d \<in> {Waiting, Returned None} \<longrightarrow> unverified d = {}) \<and>
     (dl_main d = Returned None \<longrightarrow> dl_running d = []) \<and> (\<forall>e. dl_main d \<noteq> Returned (Some e))"

lemma unverified_dom: "unverified d \<subseteq> dom (pieces (dl_pm d))"
  by (auto simp: unverified_def)

lemma live_dom: "live n d \<Longrightarrow> dom (pieces (dl_pm d)) = {0..<int n}"
  by (auto simp: live_def pm_inv_def)

lemma live_finite: "live n d \<Longrightarrow> finite (unverified d)"
  using live_dom unverified_dom finite_subset by (metis finite_atLeastLessThan_int)

lemma IsComplete_unverified: "covers ord (pieces (dl_pm d)) \<Longrightarrow> IsComplete ord (dl_pm d) \<longleftrightarrow> unverified d = {}"
  by (auto simp: IsComplete_iff unverified_def)

lemma unverified_update:
  "unverified (d\<lparr>dl_main := m\<rparr>) = unverified d" "unverified (d\<lparr>dl_active := a\<rparr>) = unverified d"
  "unverified (d\<lparr>dl_running := r\<rparr>) = unverified d" "unverified (d\<lparr>dl_file := f\<rparr>) = unverified d"
  by (simp_all add: unverified_def)

lemma unverified_requested:
  "is \<subseteq> unverified d \<Longrightarrow> set js = is \<Longrightarrow>
     unverified (d\<lparr>dl_pm := fold (mark PieceRequested) js (dl_pm d), dl_main := m\<rparr>) = unverified d"
  by (auto simp: unverified_def pieces_fold_mark split: if_splits)

lemma unverified_worker_done:
  "unverified (worker_done i PieceVerified (d\<lparr>dl_file := f, dl_completed := c\<rparr>)) = unverified d - {i}"
  by (auto simp: unverified_def worker_done_def MarkPieceStatus_def split: if_splits)

text \<open>As long as a piece is unverified, some piece can be requested.\<close>

lemma fetch_nonempty:
  assumes live: "live n d" and un: "unverified d \<noteq> {}" and c: "0 < c"
    and perm: "\<And>less xs. mset (sortSlice less xs) = mset xs"
    and cov: "covers ord1 (pieces (dl_pm d))" "covers ord2 (pieces (dl_pm d))"
    and next_ps: "GetNextPieces sortSlice below coin ord1 ord2 (request_count c) (dl_pm d) = Return (pm', ps)"
  shows "ps \<noteq> []"
proof -
  have inv: "pm_inv (dl_pm d)" and op: "\<And>i p. pieces (dl_pm d) i = Some p \<Longrightarrow> open_piece p"
    using live by (auto simp: live_def)
  obtain i p where p: "pieces (dl_pm d) i = Some p" "pi_Status p \<noteq> PieceVerified"
    using un by (auto simp: unverified_def)
  then have "downloadable (dl_pm d) PieceMissing i \<or> downloadable (dl_pm d) PieceRequested i"
    using op [OF p(1)] by (auto simp: open_piece_def downloadable_def)
  then obtain j where j: "eligible (dl_pm d) j" by (auto simp: eligible_def)
  then obtain q where q: "pieces (dl_pm d) j = Some q" by (auto simp: eligible_def downloadable_def)
  then have "pi_Index q = j" using pm_inv_piece [OF inv] by (simp add: piece_ok_def)
  let ?cs = "sortSlice (piece_less below coin) (candidates ord1 ord2 (dl_pm d))"
  have "q \<in> set (candidates ord1 ord2 (dl_pm d))"
    using set_candidates [OF inv cov] q j \<open>pi_Index q = j\<close> by simp
  then have "?cs \<noteq> []" using perm by (metis empty_iff list.set(1) set_mset_mset)
  moreover have "0 < request_count c" using c by (simp add: request_count_def maxConcurrent_def)
  moreover from this have "ps = take (nat (request_count c)) ?cs"
    using GetNextPieces_eq [OF inv cov perm _ refl, of "request_count c"] next_ps by simp
  ultimately show ?thesis by simp
qed

lemma eligible_unverified: "eligible (dl_pm d) i \<Longrightarrow> i \<in> unverified d"
  by (auto simp: eligible_def downloadable_def unverified_def)

text \<open>The steps of a run in which nothing fails.\<close>

lemma calm_step_cases:
  assumes live: "live n d" and perm: "\<And>less xs. mset (sortSlice less xs) = mset xs"
    and step: "calm_step sortSlice cs ok d d'"
  obtains (complete) "dl_main d = Looping" "unverified d = {}" "d' = d\<lparr>dl_main := Waiting\<rparr>"
  | (fetch) ps where "dl_main d = Looping" "ps \<noteq> []" "pi_Index ` set ps \<subseteq> unverified d"
      "d' = d\<lparr>dl_pm := fold (mark PieceRequested) (map pi_Index ps) (dl_pm d), dl_main := Spawning ps\<rparr>"
  | (spawn) p ps where "dl_main d = Spawning (p # ps)" "length (dl_running d) < maxConcurrent"
      "d' = d\<lparr>dl_active := insert (pi_Index p) (dl_active d), dl_running := pi_Index p # dl_running d, dl_main := Spawning ps\<rparr>"
  | (spawned) "dl_main d = Spawning []" "d' = d\<lparr>dl_main := Looping\<rparr>"
  | (worker_ok) i f' where "i \<in> set (dl_running d)"
      "d' = worker_done i PieceVerified (d\<lparr>dl_file := f', dl_completed := dl_completed d + 1\<rparr>)"
  | (done_waiting) "dl_main d = Waiting" "dl_running d = []" "d' = d\<lparr>dl_main := Returned None\<rparr>"
proof -
  from step have s: "dl_step sortSlice cs ok d d'" and calm: "calm d d'" by (simp_all add: calm_step_def)
  from s show thesis
  proof cases
    case (complete ord)
    then show thesis using that(1) IsComplete_unverified by blast
  next
    case no_peers
    then show thesis using calm by (simp add: calm_def)
  next
    case (fetch ord ord1 ord2 peerCount below coin pm' ps)
    have inv: "pm_inv (dl_pm d)" using live by (simp add: live_def)
    have "unverified d \<noteq> {}" using fetch(3,4) IsComplete_unverified by blast
    then have ne: "ps \<noteq> []" using fetch_nonempty [of n d peerCount sortSlice, OF live _ fetch(7) perm fetch(5,6,8)] by blast
    note next_step = GetNextPieces_step [of _ _ _ sortSlice, OF inv fetch(5,6) perm fetch(8)]
    have "pi_Index ` set ps \<subseteq> unverified d" using next_step(2) eligible_unverified by blast
    with ne next_step(1) fetch(1,2) show thesis using that(2) by simp
  next
    case (spawn p ps)
    then show thesis using that(3) by blast
  next
    case spawned
    then show thesis using that(4) by blast
  next
    case worker_write
    then show thesis using calm by (simp add: calm_def)
  next
    case (worker_ok i data wa f')
    then show thesis using that(5) by blast
  next
    case (worker_failed i)
    then show thesis using calm by (simp add: calm_def worker_done_def)
  next
    case (done_waiting ord)
    have "unverified d = {}" using live done_waiting(2) by (simp add: live_def)
    then have "IsComplete ord (dl_pm d)" using IsComplete_unverified done_waiting(4) by blast
    then show thesis using that(6) done_waiting by simp
  qed
qed

lemma open_mark: "open_piece p \<Longrightarrow> st \<in> {PieceMissing, PieceRequested, PieceVerified} \<Longrightarrow> open_piece (p\<lparr>pi_Status := st\<rparr>)"
  by (simp add: open_piece_def)

lemma live_step:
  assumes live: "live n d" and perm: "\<And>less xs. mset (sortSlice less xs) = mset xs"
    and step: "calm_step sortSlice cs ok d d'"
  shows "live n d'"
  using live perm step
proof (cases rule: calm_step_cases)
  case (fetch ps)
  have un: "unverified d' = unverified d" using unverified_requested [of "pi_Index ` set ps" d] fetch(3,4) by simp
  have "open_piece p" if "pieces (dl_pm d') i = Some p" for i p
    using that live by (auto simp: fetch(4) pieces_fold_mark live_def open_mark split: if_splits)
  moreover have "pi_Index ` set ps \<subseteq> {0..<int n}" using fetch(3) unverified_dom live_dom [OF live] by blast
  ultimately show ?thesis using live un by (simp add: fetch(1,4) live_def fold_mark_inv)
next
  case (worker_ok i f')
  have un: "unverified d' = unverified d - {i}" by (simp add: worker_ok(2) unverified_worker_done)
  have "open_piece p" if "pieces (dl_pm d') j = Some p" for j p
    using that live by (auto simp: worker_ok(2) worker_done_def MarkPieceStatus_def live_def open_mark split: if_splits)
  moreover have "set (remove1 i (dl_running d)) \<subseteq> {0..<int n}" "length (remove1 i (dl_running d)) \<le> maxConcurrent"
    using live set_remove1_subset [of i "dl_running d"] by (auto simp: live_def length_remove1)
  moreover have "dl_main d \<noteq> Returned None" using live worker_ok(1) by (auto simp: live_def)
  ultimately show ?thesis using live un by (auto simp: worker_ok(2) worker_done_def MarkPieceStatus_def live_def mark_inv)
qed (use live in \<open>auto simp: live_def unverified_update\<close>)

subsection \<open>The measure\<close>

definition position :: "download \<Rightarrow> nat" where
  "position d =
     (case dl_main d of
        Returned _ \<Rightarrow> 0
      | Waiting \<Rightarrow> 1
      | Spawning ps \<Rightarrow> if \<exists>p \<in> set ps. pi_Index p \<in> unverified d then 2 else 4
      | Looping \<Rightarrow> 3)"

definition busy :: "download \<Rightarrow> nat" where
  "busy d = length (filter (\<lambda>i. i \<in> unverified d) (dl_running d))"

definition rank :: "download \<Rightarrow> nat \<times> nat \<times> nat \<times> nat \<times> nat" where
  "rank d = (card (unverified d), maxConcurrent - busy d, position d, length (queue (dl_main d)), length (dl_running d))"

definition rank_order :: "((nat \<times> nat \<times> nat \<times> nat \<times> nat) \<times> (nat \<times> nat \<times> nat \<times> nat \<times> nat)) set" where
  "rank_order = less_than <*lex*> less_than <*lex*> less_than <*lex*> less_than <*lex*> less_than"

lemma wf_rank_order: "wf rank_order"
  unfolding rank_order_def by (intro wf_lex_prod wf_less_than)

lemma busy_le: "busy d \<le> length (dl_running d)"
  by (simp add: busy_def)

lemma rank_spawn:
  assumes "dl_main d = Spawning (p # ps)" and "length (dl_running d) < maxConcurrent"
    and d': "unverified d' = unverified d" "dl_running d' = pi_Index p # dl_running d" "dl_main d' = Spawning ps"
  shows "(rank d', rank d) \<in> rank_order"
proof (cases "pi_Index p \<in> unverified d")
  case True
  then have "busy d' = Suc (busy d)" by (simp add: busy_def d')
  moreover have "busy d < maxConcurrent" using busy_le [of d] assms(2) by (rule order_le_less_trans)
  ultimately have "maxConcurrent - busy d' < maxConcurrent - busy d" by linarith
  then show ?thesis by (simp add: rank_def rank_order_def d')
next
  case False
  then have "busy d' = busy d" "position d' = position d" by (simp_all add: busy_def position_def d' assms(1))
  then show ?thesis by (simp add: rank_def rank_order_def d' assms(1))
qed

lemma rank_worker_ok:
  assumes "finite (unverified d)" and "i \<in> set (dl_running d)"
    and d': "unverified d' = unverified d - {i}" "dl_running d' = remove1 i (dl_running d)" "dl_main d' = dl_main d"
  shows "(rank d', rank d) \<in> rank_order"
proof (cases "i \<in> unverified d")
  case True
  then have "card (unverified d') < card (unverified d)"
    using assms(1) unfolding d'(1) by (rule card_Diff1_less [rotated])
  then show ?thesis by (simp add: rank_def rank_order_def)
next
  case False
  then have same: "unverified d' = unverified d" using d'(1) by simp
  have "busy d' = busy d" "position d' = position d"
    using False by (simp_all add: busy_def position_def same d'(2,3) filter_remove1 remove1_idem split: main_state.split)
  moreover have "length (remove1 i (dl_running d)) < length (dl_running d)"
    using assms(2) length_pos_if_in_set [of i "dl_running d"] by (simp add: length_remove1)
  ultimately show ?thesis by (simp add: rank_def rank_order_def same d'(2,3))
qed

lemma rank_decreases:
  assumes live: "live n d" and perm: "\<And>less xs. mset (sortSlice less xs) = mset xs"
    and step: "calm_step sortSlice cs ok d d'"
  shows "(rank d', rank d) \<in> rank_order"
  using live perm step
proof (cases rule: calm_step_cases)
  case complete
  then show ?thesis by (simp add: rank_def rank_order_def unverified_update busy_def position_def)
next
  case (fetch ps)
  have un: "unverified d' = unverified d" using unverified_requested [of "pi_Index ` set ps" d] fetch(3,4) by simp
  have "dl_main d' = Spawning ps" by (simp add: fetch(4))
  moreover have "\<exists>p \<in> set ps. pi_Index p \<in> unverified d'" using fetch(2,3) by (cases ps) (auto simp: un)
  ultimately have "position d' = 2" by (simp add: position_def)
  moreover have "position d = 3" by (simp add: position_def fetch(1))
  moreover have "dl_running d' = dl_running d" by (simp add: fetch(4))
  then have "busy d' = busy d" by (simp add: busy_def un)
  ultimately show ?thesis by (simp add: rank_def rank_order_def un)
next
  case (spawn p ps)
  then show ?thesis by (intro rank_spawn) (simp_all add: unverified_update)
next
  case spawned
  then show ?thesis by (simp add: rank_def rank_order_def unverified_update busy_def position_def)
next
  case (worker_ok i f')
  then show ?thesis
    using live_finite [OF live] by (intro rank_worker_ok) (simp_all add: unverified_worker_done, simp_all add: worker_done_def)
next
  case done_waiting
  then show ?thesis by (simp add: rank_def rank_order_def unverified_update busy_def position_def)
qed

lemma live_steps:
  assumes "\<And>less xs. mset (sortSlice less xs) = mset xs" and "(calm_step sortSlice cs ok)\<^sup>*\<^sup>* d d'" and "live n d"
  shows "live n d'"
  using assms(2,3) by (induction rule: rtranclp_induct) (auto intro: live_step [of _ _ sortSlice, OF _ assms(1)])

lemma calm_runs_finite:
  assumes perm: "\<And>less xs. mset (sortSlice less xs) = mset xs" and "live n (f 0)"
    and "\<And>k. calm_step sortSlice cs ok (f k) (f (Suc k))"
  shows False
proof -
  have "live n (f k)" for k
    by (induction k) (use assms(2,3) live_step [of _ _ sortSlice, OF _ perm] in blast)+
  then have "(rank (f (Suc k)), rank (f k)) \<in> rank_order" for k
    using rank_decreases [of n _ sortSlice, OF _ perm assms(3)] by blast
  then have "\<exists>g. \<forall>k. (g (Suc k), g k) \<in> rank_order" by (intro exI [of _ "\<lambda>k. rank (f k)"]) simp
  then show False using wf_rank_order unfolding wf_iff_no_infinite_down_chain by simp
qed

subsection \<open>No run gets stuck\<close>

lemma worker_can_finish:
  assumes ok: "dat_ok cs n L dat" and av: "\<And>i. i < n \<Longrightarrow> av (int i) (dat i)"
    and "live n d" and "i \<in> set (dl_running d)"
  shows "\<exists>d'. calm_step sortSlice (int cs) av d d'"
proof -
  have "i \<in> {0..<int n}" using assms(3,4) by (auto simp: live_def)
  then obtain j where j: "i = int j" "j < n" by (intro that [of "nat i"]) auto
  have "j * cs \<le> n * cs" using j(2) by simp
  then have "int (j * cs) < 9223372036854775808"
    using ok unfolding dat_ok_def by (meson of_nat_le_iff order_le_less_trans)
  then have w: "writeAndVerifyChunk (\<lambda>_. (length (dat j), None)) (dat j) i (int cs) (dl_file d) =
      (write_at (dl_file d) (j * cs) (dat j), None)"
    using writeAndVerifyChunk_clean [of "dat j" cs "\<lambda>_. (length (dat j), None)" j] ok j by (simp add: dat_ok_def)
  have "av i (dat j)" using av j by simp
  from dl_step.worker_ok [of i d av, OF assms(4) this w] show ?thesis
    by (rule calm_stepI) (simp add: calm_def worker_done_def)
qed

lemma covers_upto: "live n d \<Longrightarrow> covers (map int [0..<n]) (pieces (dl_pm d))"
  using live_dom by (fastforce simp: covers_def image_iff intro!: bexI [of _ "nat _"])

lemma looping_progress:
  assumes perm: "\<And>less xs. mset (sortSlice less xs) = mset xs" and live: "live n d" and main: "dl_main d = Looping"
  shows "\<exists>d'. calm_step sortSlice cs av d d'"
proof (cases "unverified d = {}")
  case True
  then have "dl_step sortSlice cs av d (d\<lparr>dl_main := Waiting\<rparr>)"
    using dl_step.complete [OF main covers_upto [OF live]] IsComplete_unverified [OF covers_upto [OF live]] by simp
  then show ?thesis by (rule calm_stepI) (simp add: calm_def main)
next
  case False
  let ?ord = "map int [0..<n]"
  have inv: "pm_inv (dl_pm d)" using live by (simp add: live_def)
  note cov = covers_upto [OF live]
  obtain pm' ps where next_ps: "GetNextPieces sortSlice (\<lambda>_. True) (\<lambda>_. True) ?ord ?ord (request_count 1) (dl_pm d) = Return (pm', ps)"
    using GetNextPieces_eq [OF inv cov cov perm _ refl, of "request_count 1"] by (simp add: request_count_def)
  then have "ps \<noteq> []" using fetch_nonempty [of n d 1 sortSlice, OF live False _ perm cov cov] by simp
  then have "dl_step sortSlice cs av d (d\<lparr>dl_pm := pm', dl_main := Spawning ps\<rparr>)"
    using dl_step.fetch [where ok = av, OF main cov _ cov cov _ next_ps] False IsComplete_unverified [OF cov] by simp
  then show ?thesis by (rule calm_stepI) (simp add: calm_def main)
qed

lemma calm_progress:
  assumes perm: "\<And>less xs. mset (sortSlice less xs) = mset xs" and ok: "dat_ok cs n L dat"
    and av: "\<And>i. i < n \<Longrightarrow> av (int i) (dat i)" and live: "live n d" and main: "dl_main d \<noteq> Returned None"
  shows "\<exists>d'. calm_step sortSlice (int cs) av d d'"
proof (cases "dl_running d = [] \<or> dl_main d = Looping")
  case False
  then obtain i where "i \<in> set (dl_running d)" by (cases "dl_running d") auto
  then show ?thesis using worker_can_finish [where av = av and dat = dat, OF ok av live] by blast
next
  case True
  note cov = covers_upto [OF live]
  show ?thesis
  proof (cases "dl_main d")
    case Looping
    then show ?thesis by (rule looping_progress [of sortSlice, OF perm live])
  next
    case (Spawning ps)
    then show ?thesis
    proof (cases ps)
      case Nil
      then show ?thesis using Spawning dl_step.spawned [of d sortSlice "int cs" av] by (auto simp: calm_step_def calm_def)
    next
      case (Cons p qs)
      then show ?thesis
        using Spawning True dl_step.spawn [of d p qs sortSlice "int cs" av]
        by (auto simp: calm_step_def calm_def maxConcurrent_def)
    qed
  next
    case Waiting
    then have "dl_running d = []" using True by simp
    moreover have "IsComplete (map int [0..<n]) (dl_pm d)" using live Waiting IsComplete_unverified [OF cov] by (simp add: live_def)
    ultimately have "dl_step sortSlice (int cs) av d (d\<lparr>dl_main := Returned None\<rparr>)"
      using dl_step.done_waiting [OF Waiting _ cov, of sortSlice "int cs" av] by simp
    then show ?thesis by (rule calm_stepI) (simp add: calm_def Waiting)
  next
    case (Returned e)
    then show ?thesis using live main by (cases e) (auto simp: live_def)
  qed
qed

lemma start_live:
  assumes "DownloadFile_start fl enc dec resp connect ord fileID fs s = Return (fs1, s1, Inr (meta, d0))"
    and "md_NumChunks meta = int n" and "range_keys ord (sv_peers s1) \<noteq> []"
  shows "live n d0"
proof -
  have "open_piece p" if "pieces (dl_pm d0) i = Some p" for i p
    using DownloadFile_start_some [OF assms(1,2) that] assms(3) by (simp add: open_piece_def del: set_range_keys)
  then show ?thesis
    using DownloadFile_start_piece [OF assms(1,2)] DownloadFile_start_state [OF assms(1)] by (auto simp: live_def)
qed

text \<open>So such a run can always be continued to a successful return.\<close>

lemma live_finishes:
  assumes perm: "\<And>less xs. mset (sortSlice less xs) = mset xs" and ok: "dat_ok cs n L dat"
    and av: "\<And>i. i < n \<Longrightarrow> av (int i) (dat i)"
  shows "live n d \<Longrightarrow> \<exists>d'. (dl_step sortSlice (int cs) av)\<^sup>*\<^sup>* d d' \<and> dl_main d' = Returned None"
proof (induction "rank d" arbitrary: d rule: wf_induct_rule [OF wf_rank_order])
  case 1
  show ?case
  proof (cases "dl_main d = Returned None")
    case False
    obtain d1 where d1: "calm_step sortSlice (int cs) av d d1"
      using calm_progress [where sortSlice = sortSlice and av = av and dat = dat, OF perm ok av 1(2) False] by blast
    have "(rank d1, rank d) \<in> rank_order" "live n d1"
      using rank_decreases [of n d sortSlice, OF 1(2) perm d1] live_step [of n d sortSlice, OF 1(2) perm d1] by simp_all
    with 1(1) obtain d' where "(dl_step sortSlice (int cs) av)\<^sup>*\<^sup>* d1 d'" "dl_main d' = Returned None" by blast
    moreover have "dl_step sortSlice (int cs) av d d1" using d1 by (simp add: calm_step_def)
    ultimately show ?thesis by (meson converse_rtranclp_into_rtranclp)
  qed blast
qed

end
