(* ===== verification/Download_Properties.thy ===== *)
theory Download_Properties
  imports Download_Termination
begin

section \<open>What a download does (server.go: DownloadFile, downloadChunk)\<close>

text \<open>
  The properties of downloading: a finished download is the shared file, a download ends when
  nothing fails, \<^verbatim>\<open>downloadChunk\<close> refines the workers of the step relation, and what happens with
  wrong data, without peers at the start, and when workers for the same piece succeed and fail.
\<close>

text \<open>
  C1: A finished download is the file. If every peer sends the right block for every chunk, then
  however the main loop and the workers interleave, whatever write errors, duplicate requests
  and failed attempts occur: when \<^verbatim>\<open>DownloadFile\<close> returns without an error, the output file holds
  the shared content, and it is left on disk, unless the content is empty, in which case the
  deferred clean-up deletes the output file.
\<close>

theorem download_correct:
  assumes "DownloadFile_start fl enc dec resp connect ord fileID fs s = Return (fs1, s1, Inr (meta, d0))"
    and "0 < cs" and "md_ChunkSize meta = int cs" and "md_NumChunks meta = int (num_chunks cs (length content))"
    and "int (length content) + int cs < 9223372036854775808"
    and "\<And>less xs. mset (sortSlice less xs) = mset xs"
    and "(dl_step sortSlice (md_ChunkSize meta) (\<lambda>i data. data = block cs content (nat i)))\<^sup>*\<^sup>* d0 d"
    and "dl_main d = Returned None"
  shows "dl_file d = content \<and>
    close_output name d fs1 name = (if content = [] then None else Some content)"
  using finished_download [of fl enc dec resp connect ord fileID fs s fs1 s1 meta d0 cs content sortSlice d, OF assms(1-6)]
    assms(7,8) by (simp add: close_output_def)

text \<open>
  C3: A download ends, and ends well. With a peer connected at the start and peers that send the right
  blocks, there is no infinite run in which nothing fails, and such a run cannot get stuck: as
  long as \<^verbatim>\<open>DownloadFile\<close> has not returned, another step is possible, and it returns only without
  an error, with the shared content in the output file.
\<close>

theorem download_terminates:
  assumes "DownloadFile_start fl enc dec resp connect ord fileID fs s = Return (fs1, s1, Inr (meta, d0))"
    and "0 < cs" and "md_ChunkSize meta = int cs" and "md_NumChunks meta = int (num_chunks cs (length content))"
    and "int (length content) + int cs < 9223372036854775808"
    and "\<And>less xs. mset (sortSlice less xs) = mset xs" and "range_keys ord (sv_peers s1) \<noteq> []"
    and "step = calm_step sortSlice (md_ChunkSize meta) (\<lambda>i data. data = block cs content (nat i))"
  shows "(\<nexists>f. f 0 = d0 \<and> (\<forall>k. step (f k) (f (Suc k)))) \<and>
    (\<forall>d. step\<^sup>*\<^sup>* d0 d \<longrightarrow> (\<exists>d'. step d d') \<or> dl_main d = Returned None \<and> dl_file d = content)"
proof (intro conjI allI impI notI)
  let ?ok = "\<lambda>i data. data = block cs content (nat i)" and ?n = "num_chunks cs (length content)"
  have live: "live ?n d0" by (rule start_live [OF assms(1,4,7)])
  have ok: "dat_ok cs ?n (length content) (block cs content)" by (rule blocks_dat_ok [OF assms(2) refl assms(5)])
  show False if "\<exists>f. f 0 = d0 \<and> (\<forall>k. step (f k) (f (Suc k)))"
    using that calm_runs_finite [of sortSlice, OF assms(6)] live unfolding assms(8) by metis
  fix d assume run: "step\<^sup>*\<^sup>* d0 d"
  then have "live ?n d" using live_steps [of sortSlice, OF assms(6)] live unfolding assms(8) by blast
  moreover have "dl_file d = content" if "dl_main d = Returned None"
    using finished_download [OF assms(1-5), of sortSlice, OF assms(6) _ that] calm_steps_dl run unfolding assms(8) by blast
  ultimately show "(\<exists>d'. step d d') \<or> dl_main d = Returned None \<and> dl_file d = content"
    using calm_progress [where sortSlice = sortSlice and av = ?ok and dat = "block cs content", OF assms(6) ok]
    unfolding assms(8,3) by auto
qed

subsection \<open>Wrong data\<close>

text \<open>
  C6: A download can finish, and nothing checks what it received. As soon as one peer is
  connected when the main loop begins, then for any data of at most a chunk's length that the
  peers may send, right or wrong, there is a run that ends without an error, with exactly these
  data in the output file: the hashes of the metadata are never compared.
\<close>

theorem download_can_finish:
  assumes "DownloadFile_start fl enc dec resp connect ord fileID fs s = Return (fs1, s1, Inr (meta, d0))"
    and "md_NumChunks meta = int n" and "0 < cs" and "md_ChunkSize meta = int cs"
    and "int (n * cs) < 9223372036854775808" and "\<And>i. i < n \<Longrightarrow> length (dat i) \<le> cs"
    and "\<And>less xs. mset (sortSlice less xs) = mset xs" and "range_keys ord (sv_peers s1) \<noteq> []"
  shows "\<exists>d. (dl_step sortSlice (md_ChunkSize meta) (\<lambda>i data. data = dat (nat i)))\<^sup>*\<^sup>* d0 d \<and>
    dl_main d = Returned None \<and> (\<forall>i < n. placed cs i (dat i) (dl_file d))"
proof -
  have step: "(\<lambda>i data. data = dat (nat i)) = sends dat" by (intro ext) (simp add: sends_def)
  have "i * cs + length (dat i) \<le> n * cs" if "i < n" for i
  proof -
    have "i * cs + length (dat i) \<le> Suc i * cs" using assms(6) [OF that] by simp
    also have "\<dots> \<le> n * cs" using that by (intro mult_le_mono1) simp
    finally show ?thesis .
  qed
  then have ok: "dat_ok cs n (n * cs) dat" using assms(3,5,6) by (simp add: dat_ok_def)
  have av: "sends dat (int i) (dat i)" for i by (simp add: sends_def)
  obtain d where d: "(dl_step sortSlice (int cs) (sends dat))\<^sup>*\<^sup>* d0 d" "dl_main d = Returned None"
    using live_finishes [where sortSlice = sortSlice and av = "sends dat" and dat = dat,
        OF assms(7) ok av start_live [OF assms(1,2,8)]] by blast
  have "dl_inv cs n (n * cs) dat d"
    using dl_inv_steps [of sortSlice, OF assms(7) ok d(1) dl_inv_init [OF assms(1,2)]] .
  then have "\<forall>i < n. placed cs i (dat i) (dl_file d)" using d(2) unfolding dl_inv_def by blast
  with d show ?thesis unfolding step assms(4) by blast
qed

subsection \<open>A download without peers at its start\<close>

definition peerless :: "nat \<Rightarrow> download \<Rightarrow> bool" where
  "peerless n d \<longleftrightarrow> pm_inv (dl_pm d) \<and> numPieces (dl_pm d) = int n \<and>
     (\<forall>i p. pieces (dl_pm d) i = Some p \<longrightarrow> pi_Peers p = {} \<and> pi_Status p = PieceMissing) \<and>
     dl_running d = [] \<and> queue (dl_main d) = [] \<and> dl_main d \<noteq> Returned None"

lemma peerless_step:
  assumes perm: "\<And>less xs. mset (sortSlice less xs) = mset xs" and n: "0 < n"
    and p: "peerless n d" and step: "dl_step sortSlice cs ok d d'"
  shows "peerless n d'"
  using step
proof cases
  case (fetch ord ord1 ord2 peerCount below coin pm' ps)
  have "ps = []"
  proof (rule ccontr)
    assume "ps \<noteq> []"
    then obtain q where "q \<in> set ps" by (cases ps) auto
    then have "eligible (dl_pm d) (pi_Index q)"
      using GetNextPieces_step(2) [OF _ fetch(5,6) perm fetch(8)] p by (auto simp: peerless_def)
    then show False using p by (auto simp: eligible_def downloadable_def peerless_def)
  qed
  moreover have "pm' = fold (mark PieceRequested) (map pi_Index ps) (dl_pm d)"
    using GetNextPieces_step(1) [OF _ fetch(5,6) perm fetch(8)] p by (simp add: peerless_def)
  ultimately show ?thesis using p fetch(1) by (simp add: peerless_def)
next
  case (done_waiting ord)
  have "int 0 \<in> dom (pieces (dl_pm d))" using p n by (simp add: peerless_def pm_inv_def)
  then have "\<not> IsComplete ord (dl_pm d)"
    using p IsComplete_iff [OF done_waiting(4)] by (force simp: peerless_def)
  then show ?thesis using p done_waiting(1) by (simp add: peerless_def)
next
  case (spawn p ps)
  with \<open>peerless n d\<close> show ?thesis by (simp add: peerless_def)
qed (use p in \<open>auto simp: peerless_def\<close>)

text \<open>
  C32: Peers that connect too late are not used. If no peer is connected when the main loop begins
  and the file has a chunk, then \<^verbatim>\<open>DownloadFile\<close> never succeeds, however many peers connect later:
  only the peers present at the start are entered into the piece table, and a piece without peers
  is never requested, so no worker is ever started.
\<close>

theorem download_needs_initial_peers:
  assumes "DownloadFile_start fl enc dec resp connect ord fileID fs s = Return (fs1, s1, Inr (meta, d0))"
    and "0 < md_NumChunks meta" and "range_keys ord (sv_peers s1) = []"
    and "\<And>less xs. mset (sortSlice less xs) = mset xs"
    and "(dl_step sortSlice cs ok)\<^sup>*\<^sup>* d0 d"
  shows "dl_main d \<noteq> Returned None \<and> dl_running d = []"
proof -
  obtain n where n: "md_NumChunks meta = int n" "0 < n" using assms(2) by (metis zero_less_imp_eq_int)
  note init = DownloadFile_start_piece [OF assms(1) n(1)]
  have "peerless n d0"
  proof -
    have "pi_Peers p = {} \<and> pi_Status p = PieceMissing" if "pieces (dl_pm d0) i = Some p" for i p
      using DownloadFile_start_some [OF assms(1) n(1) that] assms(3) by (simp del: set_range_keys)
    then show ?thesis using init DownloadFile_start_state [OF assms(1)] by (auto simp: peerless_def)
  qed
  with assms(5) have "peerless n d"
    by (induction rule: rtranclp_induct) (auto intro: peerless_step [OF assms(4) n(2)])
  then show ?thesis by (simp add: peerless_def)
qed

subsection \<open>A worker's download of one chunk\<close>

definition failed_write :: "(int \<Rightarrow> bytes \<Rightarrow> bool) \<Rightarrow> int \<Rightarrow> int \<Rightarrow> bytes \<Rightarrow> bytes \<Rightarrow> bool" where
  "failed_write ok cs i f f' \<longleftrightarrow> (\<exists>data wa e. ok i data \<and> writeAndVerifyChunk wa data i cs f = (f', Some e))"

definition good_write :: "(int \<Rightarrow> bytes \<Rightarrow> bool) \<Rightarrow> int \<Rightarrow> int \<Rightarrow> bytes \<Rightarrow> bytes \<Rightarrow> bool" where
  "good_write ok cs i f f' \<longleftrightarrow> (\<exists>data wa. ok i data \<and> writeAndVerifyChunk wa data i cs f = (f', None))"

definition chunk_effect :: "(int \<Rightarrow> bytes \<Rightarrow> bool) \<Rightarrow> int \<Rightarrow> int \<Rightarrow> bytes \<Rightarrow> bytes \<Rightarrow> bool \<Rightarrow> bool" where
  "chunk_effect ok cs i f f' b \<longleftrightarrow>
     (if b then \<exists>f0. (failed_write ok cs i)\<^sup>*\<^sup>* f f0 \<and> good_write ok cs i f0 f'
      else (failed_write ok cs i)\<^sup>*\<^sup>* f f')"

lemma chunk_effect_failed: "failed_write ok cs i f f1 \<Longrightarrow> chunk_effect ok cs i f1 f' b \<Longrightarrow> chunk_effect ok cs i f f' b"
  by (auto simp: chunk_effect_def intro: converse_rtranclp_into_rtranclp split: if_splits)

lemma chunk_effect_trans: "chunk_effect ok cs i f f1 False \<Longrightarrow> chunk_effect ok cs i f1 f' b \<Longrightarrow> chunk_effect ok cs i f f' b"
  by (auto simp: chunk_effect_def intro: rtranclp_trans split: if_splits)

lemma chunk_effect_refl: "chunk_effect ok cs i f f False"
  by (simp add: chunk_effect_def)

lemma try_peers_effect:
  assumes "\<And>p data. talk p = Response data \<Longrightarrow> ok i data"
  shows "try_peers talk wa fileID i cs ps le (s, f) = ((s', f'), b, le') \<Longrightarrow> chunk_effect ok cs i f f' b"
proof (induction ps arbitrary: le s f)
  case Nil
  then show ?case by (auto simp: chunk_effect_refl)
next
  case (Cons p ps)
  show ?case
  proof (cases "talk p")
    case (Response data)
    then have ok: "ok i data" by (rule assms)
    obtain f1 err where w: "writeAndVerifyChunk (wa p) data i cs f = (f1, err)" by fastforce
    show ?thesis
    proof (cases err)
      case None
      then have "f' = f1" "b" using Cons.prems Response w by (auto simp: Let_def)
      moreover have "good_write ok cs i f f1" using ok w None by (auto simp: good_write_def)
      ultimately show ?thesis by (auto simp: chunk_effect_def)
    next
      case (Some e)
      then have "failed_write ok cs i f f1" using ok w by (auto simp: failed_write_def)
      moreover have "chunk_effect ok cs i f1 f' b"
        using Cons.prems Response w Some by (intro Cons.IH) (auto simp: Let_def)
      ultimately show ?thesis by (rule chunk_effect_failed)
    qed
  qed (use Cons.prems in \<open>auto simp: Let_def intro: Cons.IH\<close>)
qed

lemma chunk_attempts_effect:
  assumes "\<And>a p data. talk a p = Response data \<Longrightarrow> ok i data"
  shows "chunk_attempts refresh shuffle talk wa fileID i cs a n le (s, f) = ((s', f'), err) \<Longrightarrow>
    chunk_effect ok cs i f f' (err = None)"
proof (induction n arbitrary: a le s f)
  case 0
  then show ?case by (auto simp: chunk_effect_refl)
next
  case (Suc n)
  obtain s1 e where r: "(if current_peers (shuffle a) s = [] then refresh a s else (s, None)) = (s1, e)"
    by fastforce
  show ?case
  proof (cases e)
    case (Some x)
    then show ?thesis using Suc.prems r by (auto intro: Suc.IH)
  next
    case None
    obtain s2 f2 b le2 where t: "try_peers (talk a) (wa a) fileID i cs (current_peers (shuffle a) s1) le (s1, f) =
        ((s2, f2), b, le2)" by (metis prod.exhaust)
    then have eff: "chunk_effect ok cs i f f2 b" using assms by (rule try_peers_effect [rotated])
    show ?thesis
    proof (cases b)
      case True
      then show ?thesis using Suc.prems r None t eff by auto
    next
      case False
      then have "chunk_effect ok cs i f2 f' (err = None)"
        using Suc.prems r None t by (intro Suc.IH [of "Suc a" le2 s2 f2]) auto
      moreover have "chunk_effect ok cs i f f2 False" using eff False by simp
      ultimately show ?thesis by (rule chunk_effect_trans [rotated])
    qed
  qed
qed

lemma failed_writes_steps:
  assumes "(failed_write ok cs i)\<^sup>*\<^sup>* f f'" and "i \<in> set (dl_running d)" and "dl_file d = f"
  shows "(dl_step sortSlice cs ok)\<^sup>*\<^sup>* d (d\<lparr>dl_file := f'\<rparr>)"
  using assms(1)
proof (induction rule: rtranclp_induct)
  case base
  have "d\<lparr>dl_file := f\<rparr> = d" using assms(3) by (intro download.equality) simp_all
  then show ?case by simp
next
  case (step g h)
  then obtain data wa e where "ok i data" "writeAndVerifyChunk wa data i cs (dl_file (d\<lparr>dl_file := g\<rparr>)) = (h, Some e)"
    by (auto simp: failed_write_def)
  then have "dl_step sortSlice cs ok (d\<lparr>dl_file := g\<rparr>) (d\<lparr>dl_file := g, dl_file := h\<rparr>)"
    using assms(2) by (intro dl_step.worker_write) simp_all
  then show ?case using step.IH by simp
qed

text \<open>
  C13: The worker goroutine refines the step relation. Running \<^verbatim>\<open>downloadChunk\<close> for a piece, with
  its three attempts over the connected peers and its retried writes, and then recording the
  result is a sequence of worker steps: it ends with the piece verified and a successful write if
  \<^verbatim>\<open>downloadChunk\<close> returns nil, and with the piece missing again if it returns an error.
\<close>

theorem downloadChunk_refines:
  assumes "i \<in> set (dl_running d)" and "\<And>a p data. talk a p = Response data \<Longrightarrow> ok i data"
    and "downloadChunk refresh shuffle talk wa fileID i cs (s, dl_file d) = ((s', f'), err)"
  shows "(dl_step sortSlice cs ok)\<^sup>*\<^sup>* d
    (if err = None then worker_done i PieceVerified (d\<lparr>dl_file := f', dl_completed := dl_completed d + 1\<rparr>)
     else worker_done i PieceMissing (d\<lparr>dl_file := f'\<rparr>))"
proof -
  have eff: "chunk_effect ok cs i (dl_file d) f' (err = None)"
    using chunk_attempts_effect [of talk ok i] assms(2,3) by (simp add: downloadChunk_def)
  show ?thesis
  proof (cases "err = None")
    case True
    then obtain f0 data w where f0: "(failed_write ok cs i)\<^sup>*\<^sup>* (dl_file d) f0" and "ok i data"
      "writeAndVerifyChunk w data i cs (dl_file (d\<lparr>dl_file := f0\<rparr>)) = (f', None)"
      using eff by (auto simp: chunk_effect_def good_write_def)
    then have "dl_step sortSlice cs ok (d\<lparr>dl_file := f0\<rparr>) (worker_done i PieceVerified
        (d\<lparr>dl_file := f0, dl_file := f', dl_completed := dl_completed (d\<lparr>dl_file := f0\<rparr>) + 1\<rparr>))"
      using assms(1) by (intro dl_step.worker_ok) simp_all
    with failed_writes_steps [OF f0 assms(1) refl, of sortSlice] show ?thesis
      using True by (simp add: rtranclp.rtrancl_into_rtrancl)
  next
    case False
    then have "(dl_step sortSlice cs ok)\<^sup>*\<^sup>* d (d\<lparr>dl_file := f'\<rparr>)"
      using eff failed_writes_steps [OF _ assms(1) refl] by (simp add: chunk_effect_def)
    moreover have "dl_step sortSlice cs ok (d\<lparr>dl_file := f'\<rparr>) (worker_done i PieceMissing (d\<lparr>dl_file := f'\<rparr>))"
      using assms(1) by (intro dl_step.worker_failed) simp
    ultimately show ?thesis using False by (auto intro: rtranclp.rtrancl_into_rtrancl)
  qed
qed

subsection \<open>Late failures\<close>

lemma fetch_single:
  assumes inv: "pm_inv pm" and n: "numPieces pm = 1" and p: "pieces pm 0 = Some p" "pi_Peers p \<noteq> {}"
    "pi_Status p \<in> {PieceMissing, PieceRequested}" and perm: "\<And>less xs. mset (sortSlice less xs) = mset xs"
  shows "GetNextPieces sortSlice below coin [0] [0] (request_count 1) pm = Return (mark PieceRequested 0 pm, [p])"
proof -
  have dom: "dom (pieces pm) = {0}" using inv n by (auto simp: pm_inv_def)
  then have cov: "covers [0] (pieces pm)" by (simp add: covers_def)
  have only: "pieces pm i = Some q \<longleftrightarrow> i = 0 \<and> q = p" for i q using dom p(1) by (metis domI option.inject singletonD)
  have idx: "pi_Index p = 0" using pm_inv_piece [OF inv p(1)] by (simp add: piece_ok_def)
  have "eligible pm i \<longleftrightarrow> i = 0" for i
    using p(2,3) by (auto simp: eligible_def downloadable_def only)
  then have set_c: "set (candidates [0] [0] pm) = {p}"
    using set_candidates [OF inv cov cov] only idx by auto
  have "candidates [0] [0] pm = [p]"
  proof -
    have "distinct (candidates [0] [0] pm)" using distinct_candidates [OF inv] by (simp add: distinct_map)
    then have "length (candidates [0] [0] pm) = 1" using set_c distinct_card by fastforce
    then show ?thesis using set_c by (cases "candidates [0] [0] pm") auto
  qed
  then have "mset (sortSlice (piece_less below coin) (candidates [0] [0] pm)) = {#p#}" using perm by simp
  then have "sortSlice (piece_less below coin) (candidates [0] [0] pm) = [p]"
    by (metis mset_single_iff_right mset.simps)
  then show ?thesis
    using GetNextPieces_eq [of pm "[0]" "[0]" sortSlice "request_count 1", OF inv cov cov perm _ refl] idx
    by (simp add: request_count_def maxConcurrent_def)
qed

lemma two_workers:
  assumes "DownloadFile_start fl enc dec resp connect ord fileID fs s = Return (fs1, s1, Inr (meta, d0))"
    and "md_NumChunks meta = 1" and "range_keys ord (sv_peers s1) \<noteq> []"
    and "\<And>less xs. mset (sortSlice less xs) = mset xs"
  shows "\<exists>d q. (dl_step sortSlice (int cs) ok)\<^sup>*\<^sup>* d0 d \<and> dl_running d = [0, 0] \<and> dl_file d = [] \<and>
    dl_completed d = 0 \<and> pieces (dl_pm d) 0 = Some q"
proof -
  let ?S = "dl_step sortSlice (int cs) ok"
  have start: "pm_inv (dl_pm d0)" "numPieces (dl_pm d0) = 1" and "\<exists>p. pieces (dl_pm d0) (int 0) = Some p \<and>
      pi_Status p = PieceMissing \<and> pi_Peers p = set (range_keys ord (sv_peers s1))"
    using DownloadFile_start_piece [OF assms(1), of 1] assms(2) by auto
  then obtain p where p: "pieces (dl_pm d0) 0 = Some p" "pi_Status p = PieceMissing" "pi_Peers p \<noteq> {}"
    using assms(3) by (auto simp del: set_range_keys)
  have idx: "pi_Index p = 0" using pm_inv_piece [OF start(1) p(1)] by (simp add: piece_ok_def)
  have d0: "dl_main d0 = Looping" "dl_running d0 = []" "dl_file d0 = []" "dl_completed d0 = 0"
    using DownloadFile_start_state [OF assms(1)] by auto
  let ?pm = "mark PieceRequested 0 (dl_pm d0)" and ?q = "p\<lparr>pi_Status := PieceRequested\<rparr>"
  have q: "pieces ?pm 0 = Some ?q" "pm_inv ?pm" "numPieces ?pm = 1"
    using p(1) start mark_inv by simp_all
  have cov: "covers [0] (pieces (dl_pm d0))" "covers [0] (pieces ?pm)"
    using start q by (auto simp: covers_def pm_inv_def)
  have nc: "\<not> IsComplete [0] (dl_pm d0)" "\<not> IsComplete [0] ?pm"
    using IsComplete_iff [OF cov(1)] IsComplete_iff [OF cov(2)] p(1,2) q(1) by fastforce+
  have get1: "GetNextPieces sortSlice (\<lambda>_. True) (\<lambda>_. True) [0] [0] (request_count 1) (dl_pm d0) = Return (?pm, [p])"
    by (rule fetch_single [OF start p(1,3) _ assms(4)]) (simp add: p(2))
  have get2: "GetNextPieces sortSlice (\<lambda>_. True) (\<lambda>_. True) [0] [0] (request_count 1) ?pm =
      Return (mark PieceRequested 0 ?pm, [?q])"
    by (rule fetch_single [OF q(2,3,1) _ _ assms(4)]) (simp_all add: p(3))
  define d1 where "d1 = d0\<lparr>dl_pm := ?pm, dl_main := Spawning [p]\<rparr>"
  have s1: "?S d0 d1"
    using dl_step.fetch [where cs = "int cs" and ok = ok, OF d0(1) cov(1) nc(1) cov(1) cov(1) _ get1] by (simp add: d1_def)
  define d2 where "d2 = d1\<lparr>dl_active := insert 0 (dl_active d1), dl_running := [0], dl_main := Spawning []\<rparr>"
  have s2: "?S d1 d2"
    using dl_step.spawn [of d1 p "[]" sortSlice "int cs" ok] d0 idx by (simp add: d1_def d2_def maxConcurrent_def)
  define d3 where "d3 = d2\<lparr>dl_main := Looping\<rparr>"
  have s3: "?S d2 d3" unfolding d3_def by (rule dl_step.spawned) (simp add: d2_def)
  have d3: "dl_main d3 = Looping" "dl_pm d3 = ?pm" by (simp_all add: d3_def d2_def d1_def)
  define d4 where "d4 = d3\<lparr>dl_pm := mark PieceRequested 0 ?pm, dl_main := Spawning [?q]\<rparr>"
  have s4: "?S d3 d4"
    using dl_step.fetch [where cs = "int cs" and ok = ok and d = d3, unfolded d3(2), OF d3(1) cov(2) nc(2) cov(2) cov(2) _ get2]
    by (simp add: d4_def)
  define d5 where "d5 = d4\<lparr>dl_active := insert 0 (dl_active d4), dl_running := [0, 0], dl_main := Spawning []\<rparr>"
  have s5: "?S d4 d5"
    using dl_step.spawn [of d4 ?q "[]" sortSlice "int cs" ok] idx
    by (simp add: d5_def d4_def d3_def d2_def maxConcurrent_def)
  have "?S\<^sup>*\<^sup>* d0 d5"
    using s1 s2 s3 s4 s5 by (meson converse_rtranclp_into_rtranclp rtranclp.rtrancl_refl)
  then show ?thesis
    using d0 q(1) p(1) by (intro exI [of _ d5] exI [of _ ?q]) (simp add: d5_def d4_def d3_def d2_def d1_def)
qed

text \<open>
  C33: A piece in flight is requested again at once, and a late failure undoes a success. While the
  only chunk of a file is being fetched, the main loop starts a second worker for it (requested
  pieces count as candidates when none is missing); if that one succeeds and the first then
  fails, the chunk is in the file and counted as completed, and its status is missing again.
\<close>

theorem late_failure_undoes_verification:
  assumes "DownloadFile_start fl enc dec resp connect ord fileID fs s = Return (fs1, s1, Inr (meta, d0))"
    and "md_NumChunks meta = 1" and "md_ChunkSize meta = int cs" and "range_keys ord (sv_peers s1) \<noteq> []"
    and "\<And>less xs. mset (sortSlice less xs) = mset xs"
    and "ok 0 data" and "length data \<le> cs"
  shows "\<exists>d d' p. (dl_step sortSlice (md_ChunkSize meta) ok)\<^sup>*\<^sup>* d0 d \<and>
    (\<exists>q. pieces (dl_pm d) 0 = Some q \<and> pi_Status q = PieceVerified) \<and>
    (dl_step sortSlice (md_ChunkSize meta) ok)\<^sup>*\<^sup>* d d' \<and>
    pieces (dl_pm d') 0 = Some p \<and> pi_Status p = PieceMissing \<and> placed cs 0 data (dl_file d') \<and> dl_completed d' = 1"
proof -
  let ?S = "dl_step sortSlice (int cs) ok" and ?f = "write_at [] (0 * cs) data"
  obtain d5 q where run: "?S\<^sup>*\<^sup>* d0 d5" and d5: "dl_running d5 = [0, 0]" "dl_file d5 = []" "dl_completed d5 = 0"
    "pieces (dl_pm d5) 0 = Some q"
    using two_workers [of fl enc dec resp connect ord fileID fs s fs1 s1 meta d0 sortSlice] assms(1,2,4,5) by blast
  define d6 where "d6 = worker_done 0 PieceVerified (d5\<lparr>dl_file := ?f, dl_completed := dl_completed d5 + 1\<rparr>)"
  have "writeAndVerifyChunk (\<lambda>_. (length data, None)) data (int 0) (int cs) [] = (?f, None)"
    by (rule writeAndVerifyChunk_clean) (simp_all add: assms(7))
  then have s6: "?S d5 d6"
    unfolding d6_def
    by (intro dl_step.worker_ok [where data = data and wa = "\<lambda>_. (length data, None)"]) (simp_all add: assms(6) d5)
  have d6: "dl_running d6 = [0]" "dl_file d6 = ?f" "dl_completed d6 = 1" "pieces (dl_pm d6) 0 = Some (q\<lparr>pi_Status := PieceVerified\<rparr>)"
    using d5 by (simp_all add: d6_def worker_done_def MarkPieceStatus_def)
  define d7 where "d7 = worker_done 0 PieceMissing d6"
  have s7: "?S d6 d7" unfolding d7_def by (rule dl_step.worker_failed) (simp add: d6)
  have d7: "dl_file d7 = ?f" "dl_completed d7 = 1" "pieces (dl_pm d7) 0 = Some (q\<lparr>pi_Status := PieceMissing\<rparr>)"
    using d6 by (simp_all add: d7_def worker_done_def MarkPieceStatus_def)
  have "?S\<^sup>*\<^sup>* d0 d6" using run s6 by (rule rtranclp.rtrancl_into_rtrancl)
  moreover have "?S\<^sup>*\<^sup>* d6 d7" using s7 by blast
  moreover have "placed cs 0 data (dl_file d7)" unfolding d7(1) by (rule placed_write_self)
  ultimately show ?thesis
    unfolding assms(3) using d6(4) d7(2,3) by (intro exI [of _ d6] exI [of _ d7] exI conjI) auto
qed

subsection \<open>Examples\<close>

text \<open>Starting the download of a file of one chunk, with and without a connected peer.\<close>

definition example_file_info :: FileInfo where
  "example_file_info =
     \<lparr>fi_FileID = ''f'', fi_Name = ''a'', fi_Size = 3, fi_UploadedAt = 0, fi_Description = [],
      fi_Categories = [], fi_NumPeers = 1, fi_Extension = [], fi_NumChunks = 1, fi_ChunkSize = 4,
      fi_ChunkHashes = [''h''], fi_TotalHash = ''f'', fi_TotalSize = 3\<rparr>"

definition example_start ::
  "(FileServer \<Rightarrow> FileServer) \<Rightarrow> (filesystem \<times> FileServer \<times> (go_error + Metadata \<times> download)) outcome" where
  "example_start connect =
     DownloadFile_start no_faults (\<lambda>_. [1]) (\<lambda>_. Inr example_file_info) (Inr (200, [])) connect [''10.0.0.2:3000'']
       ''f'' Map.empty (fst (makeServer '':3001'' []))"

lemma example_start_Return:
  assumes "sv_peers (connect (fst (makeServer '':3001'' []))) = peers"
  shows "\<exists>fs1 s1 d0. example_start connect = Return (fs1, s1, Inr (info_to_meta example_file_info, d0)) \<and>
    sv_peers s1 = peers"
proof -
  have "NewPieceManager 1 [''h''] = Return \<lparr>pieces = (\<lambda>j. if 0 \<le> j \<and> j < 1 then Some (new_piece (nat j) ([''h''] ! nat j)) else None),
     numPieces = 1\<rparr>"
    by (rule NewPieceManager_Return) simp
  then show ?thesis
    using assms
    by (simp add: example_start_def DownloadFile_start_def example_file_info_def info_to_meta_def Let_def
        saveMetadata_def create_and_write_def no_faults_def)
qed

definition connect_one :: "FileServer \<Rightarrow> FileServer" where
  "connect_one s = fst (onPeer ''10.0.0.2:3000'' s)"

lemma connect_one_peers:
  "sv_peers (connect_one (fst (makeServer '':3001'' []))) = [''10.0.0.2:3000'' \<mapsto> ''10.0.0.2:3000'']"
proof -
  have "NormalizeAddress ''10.0.0.2:3000'' = ''10.0.0.2:3000''" by (simp add: NormalizeAddress_def HasPrefix_def)
  then show ?thesis by (simp add: connect_one_def onPeer_def makeServer_def Let_def)
qed

lemma example_start_connected:
  "\<exists>fs1 s1 d0. example_start connect_one = Return (fs1, s1, Inr (info_to_meta example_file_info, d0)) \<and>
    range_keys [''10.0.0.2:3000''] (sv_peers s1) \<noteq> []"
proof -
  obtain fs1 s1 d0 where "example_start connect_one = Return (fs1, s1, Inr (info_to_meta example_file_info, d0))"
    and "sv_peers s1 = [''10.0.0.2:3000'' \<mapsto> ''10.0.0.2:3000'']"
    using example_start_Return [where connect = connect_one and peers = "[''10.0.0.2:3000'' \<mapsto> ''10.0.0.2:3000'']",
        OF connect_one_peers] by blast
  then show ?thesis by (intro exI conjI) (assumption, simp add: range_keys_def)
qed

lemma example_meta_sizes:
  "md_NumChunks (info_to_meta example_file_info) = 1" "md_ChunkSize (info_to_meta example_file_info) = 4"
  by (simp_all add: info_to_meta_def example_file_info_def)

theorem download_correct_witness:
  "\<exists>fs1 s1 meta d0 d. example_start connect_one = Return (fs1, s1, Inr (meta, d0)) \<and>
    (dl_step prio_sort 4 (\<lambda>i data. data = block 4 [1, 2, 3] (nat i)))\<^sup>*\<^sup>* d0 d \<and> dl_main d = Returned None \<and>
    dl_file d = [1, 2, 3]"
proof -
  obtain fs1 s1 d0 where start: "example_start connect_one = Return (fs1, s1, Inr (info_to_meta example_file_info, d0))"
    "range_keys [''10.0.0.2:3000''] (sv_peers s1) \<noteq> []" using example_start_connected by blast
  let ?c = "[1, 2, 3 :: byte]"
  have n: "md_NumChunks (info_to_meta example_file_info) = int (num_chunks 4 (length ?c))"
    "md_ChunkSize (info_to_meta example_file_info) = int 4" "int (length ?c) + int 4 < 9223372036854775808"
    by (simp_all add: example_meta_sizes num_chunks_def)
  have live: "live (num_chunks 4 (length ?c)) d0"
    by (rule start_live [OF start(1) [unfolded example_start_def] n(1) start(2)])
  have ok: "dat_ok 4 (num_chunks 4 (length ?c)) (length ?c) (block 4 ?c)"
    by (rule blocks_dat_ok) (simp_all add: num_chunks_def)
  obtain d where d: "(dl_step prio_sort (int 4) (sends (block 4 ?c)))\<^sup>*\<^sup>* d0 d" "dl_main d = Returned None"
    using live_finishes [where sortSlice = prio_sort and av = "sends (block 4 ?c)", OF mset_prio_sort ok _ live]
    by (auto simp: sends_def)
  have step: "sends (block 4 ?c) = (\<lambda>i data. data = block 4 ?c (nat i))" by (intro ext) (simp add: sends_def)
  have "dl_file d = ?c"
    using download_correct [of _ _ _ _ _ _ _ _ _ fs1 s1 "info_to_meta example_file_info" d0 4 ?c prio_sort d,
        OF start(1) [unfolded example_start_def] _ n(2,1,3) mset_prio_sort _ d(2)] d(1)
    unfolding step n(2) by simp
  then show ?thesis using start(1) d unfolding step by auto
qed

theorem download_can_finish_witness:
  "\<exists>fs1 s1 meta d0 d. example_start connect_one = Return (fs1, s1, Inr (meta, d0)) \<and>
    (dl_step prio_sort 4 (\<lambda>i data. data = [6, 6, 6]))\<^sup>*\<^sup>* d0 d \<and> dl_main d = Returned None \<and>
    placed 4 0 [6, 6, 6] (dl_file d)"
proof -
  obtain fs1 s1 d0 where start: "example_start connect_one = Return (fs1, s1, Inr (info_to_meta example_file_info, d0))"
    "range_keys [''10.0.0.2:3000''] (sv_peers s1) \<noteq> []" using example_start_connected by blast
  have "md_NumChunks (info_to_meta example_file_info) = int 1" "md_ChunkSize (info_to_meta example_file_info) = int 4"
    by (simp_all add: example_meta_sizes)
  from download_can_finish [OF start(1) [unfolded example_start_def] this(1) _ this(2) _ _ mset_prio_sort start(2),
      where dat = "\<lambda>_. [6, 6, 6]"]
  show ?thesis using start(1) by (auto simp: example_meta_sizes)
qed

theorem download_needs_initial_peers_witness:
  "\<exists>fs1 s1 meta d0. example_start id = Return (fs1, s1, Inr (meta, d0)) \<and> dl_main d0 \<noteq> Returned None"
proof -
  have "sv_peers (id (fst (makeServer '':3001'' []))) = Map.empty" by (simp add: makeServer_def Let_def)
  from example_start_Return [where connect = id and peers = Map.empty, OF this] obtain fs1 s1 d0 where
    start: "example_start id = Return (fs1, s1, Inr (info_to_meta example_file_info, d0))" "sv_peers s1 = Map.empty"
    by blast
  have "range_keys [''10.0.0.2:3000''] (sv_peers s1) = []" by (simp add: start(2) range_keys_def)
  from download_needs_initial_peers [of _ _ _ _ _ _ _ _ _ fs1 s1 "info_to_meta example_file_info" d0 prio_sort 4 "\<lambda>_ _. True" d0,
      OF start(1) [unfolded example_start_def] _ this mset_prio_sort]
  show ?thesis using start(1) by (auto simp: example_meta_sizes)
qed

theorem downloadChunk_refines_witness:
  "\<exists>d s' f' err. dl_running d = [0] \<and>
    downloadChunk (\<lambda>_ s. (s, None)) (\<lambda>_. [''10.0.0.2:3000'']) (\<lambda>_ _. Response [1, 2, 3]) (\<lambda>_ _ _. (3, None)) ''f'' 0 4
      (example_downloader, dl_file d) = ((s', f'), err) \<and>
    (dl_step prio_sort 4 (\<lambda>_ _. True))\<^sup>*\<^sup>* d
      (if err = None then worker_done 0 PieceVerified (d\<lparr>dl_file := f', dl_completed := dl_completed d + 1\<rparr>)
       else worker_done 0 PieceMissing (d\<lparr>dl_file := f'\<rparr>))"
proof -
  let ?d = "\<lparr>dl_pm = example_pm, dl_file = [], dl_active = {0}, dl_running = [0], dl_completed = 0, dl_main = Looping\<rparr>"
  obtain s' f' err where c: "downloadChunk (\<lambda>_ s. (s, None)) (\<lambda>_. [''10.0.0.2:3000'']) (\<lambda>_ _. Response [1, 2, 3])
      (\<lambda>_ _ _. (3, None)) ''f'' 0 4 (example_downloader, dl_file ?d) = ((s', f'), err)"
    by (metis prod.exhaust)
  have "(dl_step prio_sort 4 (\<lambda>_ _. True))\<^sup>*\<^sup>* ?d
      (if err = None then worker_done 0 PieceVerified (?d\<lparr>dl_file := f', dl_completed := dl_completed ?d + 1\<rparr>)
       else worker_done 0 PieceMissing (?d\<lparr>dl_file := f'\<rparr>))"
    by (rule downloadChunk_refines [OF _ _ c]) simp_all
  with c show ?thesis by (intro exI [of _ ?d] exI conjI) simp_all
qed

theorem late_failure_undoes_verification_witness:
  "\<exists>fs1 s1 meta d0 d' p. example_start connect_one = Return (fs1, s1, Inr (meta, d0)) \<and>
    (dl_step prio_sort 4 (\<lambda>_ _. True))\<^sup>*\<^sup>* d0 d' \<and> pieces (dl_pm d') 0 = Some p \<and> pi_Status p = PieceMissing \<and>
    placed 4 0 [1, 2, 3] (dl_file d') \<and> dl_completed d' = 1"
proof -
  obtain fs1 s1 d0 where start: "example_start connect_one = Return (fs1, s1, Inr (info_to_meta example_file_info, d0))"
    "range_keys [''10.0.0.2:3000''] (sv_peers s1) \<noteq> []" using example_start_connected by blast
  have cs: "md_ChunkSize (info_to_meta example_file_info) = int 4" by (simp add: example_meta_sizes)
  obtain d d' p where run: "(dl_step prio_sort (md_ChunkSize (info_to_meta example_file_info)) (\<lambda>_ _. True))\<^sup>*\<^sup>* d0 d"
      "(dl_step prio_sort (md_ChunkSize (info_to_meta example_file_info)) (\<lambda>_ _. True))\<^sup>*\<^sup>* d d'"
    and d': "pieces (dl_pm d') 0 = Some p" "pi_Status p = PieceMissing" "placed 4 0 [1, 2, 3] (dl_file d')" "dl_completed d' = 1"
    using late_failure_undoes_verification [where sortSlice = prio_sort and ok = "\<lambda>_ _. True" and data = "[1, 2, 3]",
        OF start(1) [unfolded example_start_def] example_meta_sizes(1) cs start(2) mset_prio_sort TrueI] by force
  have "(dl_step prio_sort 4 (\<lambda>_ _. True))\<^sup>*\<^sup>* d0 d'"
    using rtranclp_trans [OF run] by (simp add: example_meta_sizes)
  with start(1) d' show ?thesis by (intro exI conjI)
qed

theorem download_terminates_witness:
  "\<exists>fs1 s1 meta d0. example_start connect_one = Return (fs1, s1, Inr (meta, d0)) \<and>
    (\<nexists>f. f 0 = d0 \<and> (\<forall>k. calm_step prio_sort (md_ChunkSize meta) (\<lambda>i data. data = block 4 [1, 2, 3] (nat i)) (f k) (f (Suc k)))) \<and>
    (\<exists>d'. calm_step prio_sort (md_ChunkSize meta) (\<lambda>i data. data = block 4 [1, 2, 3] (nat i)) d0 d')"
proof -
  obtain fs1 s1 d0 where start: "example_start connect_one = Return (fs1, s1, Inr (info_to_meta example_file_info, d0))"
    "range_keys [''10.0.0.2:3000''] (sv_peers s1) \<noteq> []" using example_start_connected by blast
  let ?c = "[1, 2, 3 :: byte]"
  have n: "md_ChunkSize (info_to_meta example_file_info) = int 4"
    "md_NumChunks (info_to_meta example_file_info) = int (num_chunks 4 (length ?c))"
    "int (length ?c) + int 4 < 9223372036854775808"
    by (simp_all add: example_meta_sizes num_chunks_def)
  have "dl_main d0 = Looping" using DownloadFile_start_state [OF start(1) [unfolded example_start_def]] by auto
  with download_terminates [where sortSlice = prio_sort, OF start(1) [unfolded example_start_def] _ n mset_prio_sort start(2) refl]
  have "(\<nexists>f. f 0 = d0 \<and> (\<forall>k. calm_step prio_sort (md_ChunkSize (info_to_meta example_file_info))
      (\<lambda>i data. data = block 4 ?c (nat i)) (f k) (f (Suc k)))) \<and>
    (\<exists>d'. calm_step prio_sort (md_ChunkSize (info_to_meta example_file_info)) (\<lambda>i data. data = block 4 ?c (nat i)) d0 d')"
    by (metis main_state.distinct(5) rtranclp.rtrancl_refl zero_less_numeral)
  with start(1) show ?thesis by blast
qed

end
