(* ===== verification/Command_Line.thy ===== *)
theory Command_Line
  imports Download_Properties
begin

text \<open>
  The command line (\<^verbatim>\<open>main.go\<close>): the tracker's HTTP routes and how it serves requests and ticks, and
  what a node does from its flags to the final \<^verbatim>\<open>select\<close>. Also the two functions of \<^verbatim>\<open>tracker.go\<close>
  that nothing calls, \<^verbatim>\<open>StartTracker\<close> and \<^verbatim>\<open>setupUPnP\<close>. JSON decoding, \<^verbatim>\<open>strings.ToLower\<close> and
  the UPnP library are parameters.
\<close>

section \<open>The tracker as an HTTP server\<close>

record http_request =
  hr_path :: string
  hr_method :: string
  hr_query :: "string \<Rightarrow> string"
  hr_body :: string

text \<open>The decoders of the three request bodies; what \<^verbatim>\<open>Atoi\<close> and \<^verbatim>\<open>ToLower\<close> return.\<close>

record codecs =
  dec_announce :: "string \<Rightarrow> announcement option"
  dec_heartbeat :: "string \<Rightarrow> heartbeat option"
  dec_remove :: "string \<Rightarrow> removal option"
  cd_Atoi :: "string \<Rightarrow> int"
  cd_ToLower :: "string \<Rightarrow> string"

text \<open>What the clock and the ranges over maps give while one request is served.\<close>

record serve_env =
  se_now1 :: int
  se_now2 :: int
  se_ord :: "string list"
  se_ordA :: "string \<Rightarrow> string list"
  se_ordP :: "string list"

definition main_routes :: "string list" where
  "main_routes = [''/heartbeat'', ''/files'', ''/announce'', ''/peers'', ''/metadata'', ''/remove'']"

definition StartTracker_routes :: "string list" where
  "StartTracker_routes = [''/announce'', ''/peers'']"

text \<open>
  The default multiplexer on a clean path: the registered handler, or 404. A panic in a handler is
  recovered by the HTTP server; the connection is dropped and the tracker stays as it was.
\<close>

definition serve ::
  "string list \<Rightarrow> codecs \<Rightarrow> serve_env \<Rightarrow> http_request \<Rightarrow> Tracker \<Rightarrow> Tracker \<times> response outcome" where
  "serve routes cd env req t =
     (if hr_path req \<notin> set routes then (t, Return (HttpError 404 ''404 page not found''))
      else if hr_path req = ''/heartbeat'' then
        (case HandleHeartbeat (hr_method req) (dec_heartbeat cd (hr_body req)) (se_now1 env) (se_ord env) t of
           (t', r) \<Rightarrow> (t', Return r))
      else if hr_path req = ''/files'' then
        (t, HandleListFiles (cd_ToLower cd) (hr_query req ''category'') (hr_query req ''search'')
              (cd_Atoi cd (hr_query req ''page'')) (se_ord env) t)
      else if hr_path req = ''/announce'' then
        (case HandleAnnounce (hr_method req) (dec_announce cd (hr_body req)) (se_now1 env) (se_now2 env) t of
           (t', r) \<Rightarrow> (t', Return r))
      else if hr_path req = ''/peers'' then
        (case HandleGetPeers (hr_query req ''file_id'') (se_now1 env) (se_ord env) (se_ordA env) (se_ordP env) t of
           (t', r) \<Rightarrow> (t', Return r))
      else if hr_path req = ''/metadata'' then
        (t, Return (HandleGetMetadata (hr_query req ''file_id'') t))
      else
        (case HandleRemove (hr_method req) (dec_remove cd (hr_body req)) t of (t', r) \<Rightarrow> (t', Return r)))"

text \<open>
  What a client of the tracker sees of a response: \<^verbatim>\<open>http.Error\<close> ends the text with a newline, and
  a JSON answer has status 200. \<open>enc\<close> is the JSON encoder.
\<close>

definition http_reply :: "(response \<Rightarrow> string) \<Rightarrow> response \<Rightarrow> nat \<times> string" where
  "http_reply enc r =
     (case r of
        HttpError code text \<Rightarrow> (code, text @ [CHR 0x0A])
      | WriteHeader code \<Rightarrow> (code, [])
      | _ \<Rightarrow> (200, enc r))"

text \<open>The iteration orders of one request visit every key of the maps.\<close>

definition env_ok :: "codecs \<Rightarrow> serve_env \<Rightarrow> http_request \<Rightarrow> Tracker \<Rightarrow> bool" where
  "env_ok cd env req t \<longleftrightarrow>
     (case dec_heartbeat cd (hr_body req) of
        None \<Rightarrow> True | Some h \<Rightarrow> dom (peerIndex t) \<union> set (hb_FileIDs h) \<subseteq> set (se_ord env)) \<and>
     covers (se_ord env) (peerLastSeen t) \<and> (\<forall>p \<in> set (se_ord env). covers (se_ordA env p) (peerIndex t))"

text \<open>The running tracker: requests, in any order, and the ticks of the cleanup goroutine.\<close>

inductive tracker_server :: "codecs \<Rightarrow> Tracker \<Rightarrow> Tracker \<Rightarrow> bool" for cd :: codecs where
  request: "env_ok cd env req t \<Longrightarrow> serve main_routes cd env req t = (t', r) \<Longrightarrow> tracker_server cd t t'"
| tick: "op_ok (CleanupTick now ord ordA ordB) t \<Longrightarrow>
    tracker_server cd t (StartCleanupLoop_tick now ord ordA ordB t)"

section \<open>A node\<close>

record cli_flags =
  cf_listen :: string
  cf_tracker :: string
  cf_bootstrap :: string
  cf_file :: string
  cf_download :: string
  cf_start_tracker :: bool
  cf_stop_seeding :: string

definition default_flags :: cli_flags where
  "default_flags =
     \<lparr>cf_listen = '':3000'', cf_tracker = [], cf_bootstrap = [], cf_file = [], cf_download = [],
      cf_start_tracker = False, cf_stop_seeding = []\<rparr>"

datatype main_result = Fatal string | Exited | Crashed | Running

text \<open>
  A node's process: the disk, the state of its server, whether \<^verbatim>\<open>Start\<close> has opened the sockets, what
  it told the tracker, where \<^verbatim>\<open>main\<close> is, and how the process stands.
\<close>

datatype main_pc = AtStop | AtShare | AtDownload | AtSelect

record process_state =
  ms_fs :: filesystem
  ms_server :: "FileServer option"
  ms_listening :: bool
  ms_announced :: "announcement list"
  ms_removed :: "removal list"
  ms_pc :: main_pc
  ms_result :: main_result

definition node_server :: "cli_flags \<Rightarrow> FileServer \<times> TCPTransport" where
  "node_server f =
     (case makeServer (cf_listen f) (cf_bootstrap f) of (s, t) \<Rightarrow> (SetTrackerAddress (cf_tracker f) s, t))"

inductive share_phase ::
  "cli_flags \<Rightarrow> filesystem \<Rightarrow> FileServer \<Rightarrow> (filesystem \<times> FileServer \<times> announcement list \<times> go_error option) outcome \<Rightarrow> bool" where
  no_file: "cf_file f = [] \<Longrightarrow> share_phase f fs s (Return (fs, s, [], None))"
| share_file: "cf_file f \<noteq> [] \<Longrightarrow> share_phase f fs s (ShareFile fl enc env post (cf_file f) fs s)"

inductive download_phase ::
  "cli_flags \<Rightarrow> filesystem \<Rightarrow> FileServer \<Rightarrow> filesystem \<Rightarrow> FileServer \<Rightarrow> go_error option \<Rightarrow> bool" where
  no_download: "cf_download f = [] \<Longrightarrow> download_phase f fs s fs s None"
| download_file: "cf_download f \<noteq> [] \<Longrightarrow> DownloadFile (cf_download f) fs s fs' s' err \<Longrightarrow>
    download_phase f fs s fs' s' err"

text \<open>The signal handler: \<^verbatim>\<open>Cleanup\<close>, then exit.\<close>

definition shutdown ::
  "net_env \<Rightarrow> (nat \<Rightarrow> http_result) \<Rightarrow> string list \<Rightarrow> FileServer \<Rightarrow> process_state \<Rightarrow> process_state" where
  "shutdown env post ord s st =
     (case Cleanup env post ord s of
        Panic \<Rightarrow> st\<lparr>ms_server := Some s, ms_result := Crashed\<rparr>
      | Return (s', rms) \<Rightarrow>
          st\<lparr>ms_server := Some s', ms_removed := ms_removed st @ rms, ms_result := Exited\<rparr>)"

text \<open>\<^verbatim>\<open>main\<close> without \<^verbatim>\<open>-start-tracker\<close>, up to where its goroutines start.\<close>

definition main_start :: "cli_flags \<Rightarrow> filesystem \<Rightarrow> process_state" where
  "main_start f fs =
     (if cf_tracker f = [] then
        \<lparr>ms_fs = fs, ms_server = None, ms_listening = False, ms_announced = [], ms_removed = [], ms_pc = AtStop,
         ms_result = Fatal ''Tracker address is required. Use -tracker=<tracker_address>''\<rparr>
      else
        \<lparr>ms_fs = fs, ms_server = Some (fst (node_server f)), ms_listening = False, ms_announced = [],
         ms_removed = [], ms_pc = AtStop, ms_result = Running\<rparr>)"

text \<open>
  The steps of the process: those of \<^verbatim>\<open>main\<close> itself, which stops seeding and returns, or shares, downloads
  and then waits; and, at any moment, those of its goroutines: \<^verbatim>\<open>Start\<close> (whose error is fatal), the
  network, the re-announcing goroutine of a shared file, and the signal handler. A panic in any
  goroutine ends the process, with the disk in a state we leave open. \<^verbatim>\<open>StopSeedingFile\<close> and
  \<^verbatim>\<open>ShareFile\<close> are single steps; a signal finds a download before, during or after its loop.
\<close>

inductive main_step :: "cli_flags \<Rightarrow> process_state \<Rightarrow> process_state \<Rightarrow> bool" for f :: cli_flags where
  start_ok: "ms_result st = Running \<Longrightarrow> ms_server st = Some s \<Longrightarrow> \<not> ms_listening st \<Longrightarrow>
    Start tcp udp (s, snd (node_server f)) = (t', dialled, None) \<Longrightarrow>
    main_step f st (st\<lparr>ms_listening := True\<rparr>)"
| start_failed: "ms_result st = Running \<Longrightarrow> ms_server st = Some s \<Longrightarrow> \<not> ms_listening st \<Longrightarrow>
    Start tcp udp (s, snd (node_server f)) = (t', dialled, Some e) \<Longrightarrow>
    main_step f st (st\<lparr>ms_result := Fatal (''server error: '' @ Error e)\<rparr>)"
| network: "ms_result st = Running \<Longrightarrow> ms_server st = Some s \<Longrightarrow> ms_listening st \<Longrightarrow> network_step s s' \<Longrightarrow>
    main_step f st (st\<lparr>ms_server := Some s'\<rparr>)"
| network_crashed: "ms_result st = Running \<Longrightarrow> ms_server st = Some s \<Longrightarrow> ms_listening st \<Longrightarrow>
    handleRPCMessage dec enc fls (ms_fs st) wr rpc s = Panic \<Longrightarrow>
    main_step f st (st\<lparr>ms_fs := fs', ms_result := Crashed\<rparr>)"
| announce: "ms_result st = Running \<Longrightarrow> ms_server st = Some s \<Longrightarrow> fileID \<in> dom (sv_activeFiles s) \<Longrightarrow>
    announce_tick quit env post fileID s = (alive, sent) \<Longrightarrow>
    main_step f st (st\<lparr>ms_announced := ms_announced st @ sent\<rparr>)"
| signal: "ms_result st = Running \<Longrightarrow> ms_server st = Some s \<Longrightarrow> covers ord (sv_activeFiles s) \<Longrightarrow>
    main_step f st (shutdown env post ord s st)"
| signal_in_download: "ms_result st = Running \<Longrightarrow> ms_server st = Some s \<Longrightarrow> ms_pc st = AtDownload \<Longrightarrow>
    cf_download f \<noteq> [] \<Longrightarrow> DownloadFile_looping (cf_download f) (ms_fs st) s fs' s' \<Longrightarrow>
    covers ord (sv_activeFiles s') \<Longrightarrow>
    main_step f st (shutdown env post ord s' (st\<lparr>ms_fs := fs'\<rparr>))"
| stop_seeding: "ms_result st = Running \<Longrightarrow> ms_server st = Some s \<Longrightarrow> ms_pc st = AtStop \<Longrightarrow> cf_stop_seeding f \<noteq> [] \<Longrightarrow>
    StopSeedingFile env answer (cf_stop_seeding f) s = (s', rm, err) \<Longrightarrow>
    main_step f st (st\<lparr>ms_server := Some s', ms_removed := ms_removed st @ (case rm of None \<Rightarrow> [] | Some r \<Rightarrow> [r]),
      ms_result := Exited\<rparr>)"
| no_stop: "ms_result st = Running \<Longrightarrow> ms_pc st = AtStop \<Longrightarrow> cf_stop_seeding f = [] \<Longrightarrow>
    main_step f st (st\<lparr>ms_pc := AtShare\<rparr>)"
| shared: "ms_result st = Running \<Longrightarrow> ms_server st = Some s \<Longrightarrow> ms_pc st = AtShare \<Longrightarrow>
    share_phase f (ms_fs st) s (Return (fs1, s1, sent, None)) \<Longrightarrow>
    main_step f st (st\<lparr>ms_fs := fs1, ms_server := Some s1, ms_announced := ms_announced st @ sent, ms_pc := AtDownload\<rparr>)"
| share_failed: "ms_result st = Running \<Longrightarrow> ms_server st = Some s \<Longrightarrow> ms_pc st = AtShare \<Longrightarrow>
    share_phase f (ms_fs st) s (Return (fs1, s1, sent, Some e)) \<Longrightarrow>
    main_step f st (st\<lparr>ms_fs := fs1, ms_server := Some s1, ms_announced := ms_announced st @ sent,
      ms_result := Fatal (''file sharing error: '' @ Error e)\<rparr>)"
| share_crashed: "ms_result st = Running \<Longrightarrow> ms_server st = Some s \<Longrightarrow> ms_pc st = AtShare \<Longrightarrow>
    share_phase f (ms_fs st) s Panic \<Longrightarrow>
    main_step f st (st\<lparr>ms_fs := fs', ms_result := Crashed\<rparr>)"
| downloaded: "ms_result st = Running \<Longrightarrow> ms_server st = Some s \<Longrightarrow> ms_pc st = AtDownload \<Longrightarrow>
    download_phase f (ms_fs st) s fs2 s2 None \<Longrightarrow>
    main_step f st (st\<lparr>ms_fs := fs2, ms_server := Some s2, ms_pc := AtSelect\<rparr>)"
| download_failed: "ms_result st = Running \<Longrightarrow> ms_server st = Some s \<Longrightarrow> ms_pc st = AtDownload \<Longrightarrow>
    download_phase f (ms_fs st) s fs2 s2 (Some e) \<Longrightarrow>
    main_step f st (st\<lparr>ms_fs := fs2, ms_server := Some s2, ms_result := Fatal (''file download error: '' @ Error e)\<rparr>)"
| download_crashed: "ms_result st = Running \<Longrightarrow> ms_server st = Some s \<Longrightarrow> ms_pc st = AtDownload \<Longrightarrow>
    cf_download f \<noteq> [] \<Longrightarrow> DownloadFile_start fl enc dec resp connect ord (cf_download f) (ms_fs st) s = Panic \<Longrightarrow>
    main_step f st (st\<lparr>ms_fs := fs', ms_result := Crashed\<rparr>)"

definition main_node :: "cli_flags \<Rightarrow> filesystem \<Rightarrow> process_state \<Rightarrow> bool" where
  "main_node f fs st \<longleftrightarrow> (main_step f)\<^sup>*\<^sup>* (main_start f fs) st"



section \<open>Port mapping\<close>

text \<open>
  A UPnP client: what \<^verbatim>\<open>GetExternalIPAddress\<close> answers, and the error of \<^verbatim>\<open>AddPortMapping\<close> for the two
  ports and the internal client it is given.
\<close>

record upnp_client =
  GetExternalIPAddress :: "go_error + string"
  AddPortMapping :: "16 word \<Rightarrow> 16 word \<Rightarrow> string \<Rightarrow> go_error option"

text \<open>
  The mappings that were made, as (external port, internal port, internal client), and the error.
  \<open>errors\<close> is indexed like the clients; a shorter list panics.
\<close>

fun upnp_loop ::
  "int \<Rightarrow> upnp_client list \<Rightarrow> go_error option list \<Rightarrow> ((16 word \<times> 16 word \<times> string) list \<times> go_error option) outcome" where
  "upnp_loop port [] errors =
     Return ([], Some (Errorf (''failed to set up UPnP port mapping on port '' @ show_int port)))"
| "upnp_loop port (c # cs) [] = Panic"
| "upnp_loop port (c # cs) (e # errors) =
     (if e \<noteq> None then upnp_loop port cs errors
      else case GetExternalIPAddress c of
        Inl _ \<Rightarrow> upnp_loop port cs errors
      | Inr ip \<Rightarrow>
          (case AddPortMapping c (word_of_int port) (word_of_int port) ip of
             None \<Rightarrow> Return ([(word_of_int port, word_of_int port, ip)], None)
           | Some _ \<Rightarrow> upnp_loop port cs errors))"

definition setupUPnP ::
  "go_error + upnp_client list \<times> go_error option list \<Rightarrow> int \<Rightarrow>
   ((16 word \<times> 16 word \<times> string) list \<times> go_error option) outcome" where
  "setupUPnP discovered port =
     (case discovered of
        Inl e \<Rightarrow> Return ([], Some (Errorf (''failed to discover UPnP clients: '' @ Error e)))
      | Inr (clients, errors) \<Rightarrow> upnp_loop port clients errors)"

section \<open>Properties\<close>

text \<open>
  What a request asks of the tracker, by its path: an operation, or nothing that changes it; and the
  status it is answered with.
\<close>

definition request_op :: "codecs \<Rightarrow> serve_env \<Rightarrow> http_request \<Rightarrow> tracker_op option" where
  "request_op cd env req =
     map_of
       [(''/announce'', Announce (hr_method req) (dec_announce cd (hr_body req)) (se_now1 env) (se_now2 env)),
        (''/heartbeat'', Heartbeat (hr_method req) (dec_heartbeat cd (hr_body req)) (se_now1 env) (se_ord env)),
        (''/remove'', Remove (hr_method req) (dec_remove cd (hr_body req))),
        (''/peers'', GetPeers (hr_query req ''file_id'') (se_now1 env) (se_ord env) (se_ordA env) (se_ordP env))]
       (hr_path req)"

definition post_status :: "http_request \<Rightarrow> 'a option \<Rightarrow> nat" where
  "post_status req body = (if hr_method req \<noteq> ''POST'' then 405 else if body = None then 400 else 200)"

definition request_status :: "codecs \<Rightarrow> http_request \<Rightarrow> Tracker \<Rightarrow> nat" where
  "request_status cd req t =
     (if hr_path req = ''/announce'' then post_status req (dec_announce cd (hr_body req))
      else if hr_path req = ''/heartbeat'' then post_status req (dec_heartbeat cd (hr_body req))
      else if hr_path req = ''/remove'' then post_status req (dec_remove cd (hr_body req))
      else if hr_path req \<in> {''/peers'', ''/metadata''} \<and> hr_query req ''file_id'' = '''' then 400
      else if hr_path req = ''/metadata'' \<and> fileIndex t (hr_query req ''file_id'') = None then 404
      else if hr_path req \<in> set main_routes then 200 else 404)"

lemma env_ok_op: "env_ok cd env req t \<Longrightarrow> request_op cd env req = Some op \<Longrightarrow> op_ok op t"
  by (auto simp: env_ok_def request_op_def split: if_splits)

lemma serve_op:
  "fst (serve main_routes cd env req t) =
     (case request_op cd env req of None \<Rightarrow> t | Some op \<Rightarrow> exec_op op t)"
  by (simp add: serve_def request_op_def main_routes_def case_prod_unfold)

lemma serve_step:
  assumes "env_ok cd env req t" and "serve main_routes cd env req t = (t', r)"
  shows "t' = t \<or> (\<exists>op. op_ok op t \<and> t' = exec_op op t)"
  using serve_op [of cd env req t] env_ok_op [OF assms(1)] assms(2) by (auto split: option.splits)

lemma post_statuses:
  "fst (http_reply enc (snd (HandleAnnounce (hr_method req) a now1 now2 t))) = post_status req a"
  "fst (http_reply enc (snd (HandleHeartbeat (hr_method req) h now1 ord t))) = post_status req h"
  "fst (http_reply enc (snd (HandleRemove (hr_method req) rm t))) = post_status req rm"
  by (simp_all add: HandleAnnounce_def HandleHeartbeat_def HandleRemove_def post_status_def http_reply_def Let_def
      split: option.split)

lemma serve_status:
  assumes "snd (serve main_routes cd env req t) = Return r"
  shows "fst (http_reply enc r) = request_status cd req t"
proof -
  consider (announce) "hr_path req = ''/announce''" | (heartbeat) "hr_path req = ''/heartbeat''"
    | (remove) "hr_path req = ''/remove''" | (peers) "hr_path req = ''/peers''"
    | (metadata) "hr_path req = ''/metadata''" | (files) "hr_path req = ''/files''"
    | (other) "hr_path req \<notin> set main_routes"
    by (auto simp: main_routes_def)
  then show ?thesis
  proof cases
    case announce
    then have "r = snd (HandleAnnounce (hr_method req) (dec_announce cd (hr_body req)) (se_now1 env) (se_now2 env) t)"
      using assms by (simp add: serve_def main_routes_def case_prod_unfold)
    with announce show ?thesis by (simp add: post_statuses request_status_def)
  next
    case heartbeat
    then have "r = snd (HandleHeartbeat (hr_method req) (dec_heartbeat cd (hr_body req)) (se_now1 env) (se_ord env) t)"
      using assms by (simp add: serve_def main_routes_def case_prod_unfold)
    with heartbeat show ?thesis by (simp add: post_statuses request_status_def)
  next
    case remove
    then have "r = snd (HandleRemove (hr_method req) (dec_remove cd (hr_body req)) t)"
      using assms by (simp add: serve_def main_routes_def case_prod_unfold)
    with remove show ?thesis by (simp add: post_statuses request_status_def)
  next
    case peers
    then show ?thesis
      using assms by (auto simp: serve_def request_status_def main_routes_def http_reply_def
          HandleGetPeers_def Let_def case_prod_unfold split: option.splits)
  next
    case metadata
    then show ?thesis
      using assms by (auto simp: serve_def request_status_def main_routes_def http_reply_def
          HandleGetMetadata_def split: option.splits)
  next
    case files
    then show ?thesis
      using assms by (auto simp: serve_def request_status_def main_routes_def http_reply_def
          HandleListFiles_def Let_def split: outcome.splits)
  next
    case other
    then show ?thesis
      using assms by (auto simp: serve_def request_status_def main_routes_def http_reply_def)
  qed
qed

interpretation http_tracker: simulation "\<lambda>t. t = NewTracker" "tracker_server cd" "\<lambda>_. True" id tracker_step for cd
proof unfold_locales
  fix t t' assume "tracker_server cd t t'"
  then show "tracker_step\<^sup>*\<^sup>* (id t) (id t')"
  proof cases
    case (request env req r)
    then have "t' = t \<or> tracker_step t t'" using serve_step tracker_step.intros by blast
    then show ?thesis by auto
  next
    case (tick now ord ordA ordB)
    then show ?thesis using tracker_step.intros [of "CleanupTick now ord ordA ordB" t] by auto
  qed
qed simp_all

text \<open>
  C12: The HTTP server refines the abstract tracker. In every state reached by serving requests and
  cleaning up, a request acts on who shares what and on the last-seen times as the operation its
  path names: \<^verbatim>\<open>/announce\<close>, \<^verbatim>\<open>/heartbeat\<close> and \<^verbatim>\<open>/remove\<close> with the decoded body, \<^verbatim>\<open>/peers\<close> with the
  queried file; every other request leaves the tracker as it is. An answer has the status the request
  deserves (405 for a wrong method, 400 for a body that does not decode or a missing file id, 404 for
  an unknown file or path, else 200). \<^verbatim>\<open>/peers\<close> answers with exactly the sharers of the queried file seen
  within two minutes, \<^verbatim>\<open>/metadata\<close> with the record of the queried file.
\<close>

theorem tracker_server_refines:
  assumes "(tracker_server cd)\<^sup>*\<^sup>* NewTracker t" and "env_ok cd env req t"
    and "serve main_routes cd env req t = (t', r)" and "f = hr_query req ''file_id''"
  shows "(case request_op cd env req of
        None \<Rightarrow> t' = t
      | Some op \<Rightarrow> abs_tracker t' = spec_op op (abs_tracker t)) \<and>
    spec_step\<^sup>*\<^sup>* ({}, Map.empty) (abs_tracker t') \<and>
    (\<forall>answer. r = Return answer \<longrightarrow> fst (http_reply enc answer) = request_status cd req t) \<and>
    (hr_path req = ''/peers'' \<and> f \<noteq> '''' \<and> {p. (f, p) \<in> shares t} \<subseteq> set (se_ordP env) \<longrightarrow>
      (\<exists>ps. r = Return (JsonPeers ps) \<and> distinct ps \<and> set ps = {p. (f, p) \<in> shares t \<and>
        (\<exists>seen. peerLastSeen t p = Some seen \<and> se_now1 env - 120 * Second \<le> seen)})) \<and>
    (hr_path req = ''/metadata'' \<and> f \<noteq> '''' \<longrightarrow>
      (\<forall>info. fileIndex t f = Some info \<longrightarrow> r = Return (JsonFileInfo info)))"
proof (intro conjI impI allI)
  have reach: "tracker_step\<^sup>*\<^sup>* NewTracker t" using http_tracker.steps_sim [OF assms(1)] by simp
  then have inv: "tracker_inv t" by (rule tracker_system.reachable_inv [OF refl])
  have t': "t' = (case request_op cd env req of None \<Rightarrow> t | Some op \<Rightarrow> exec_op op t)"
    using serve_op [of cd env req t] assms(3) by simp
  then show "case request_op cd env req of
        None \<Rightarrow> t' = t
      | Some op \<Rightarrow> abs_tracker t' = spec_op op (abs_tracker t)"
    using exec_op_refines [OF inv] env_ok_op [OF assms(2)] by (simp split: option.splits)
  have "tracker_step\<^sup>*\<^sup>* NewTracker t'"
    using serve_step [OF assms(2,3)] reach tracker_step.intros by (metis rtranclp.rtrancl_into_rtrancl)
  from tracker_spec.reachable_sim [OF refl this] show "spec_step\<^sup>*\<^sup>* ({}, Map.empty) (abs_tracker t')"
    by (simp add: abs_tracker_def shares_def NewTracker_def)
  show "fst (http_reply enc answer) = request_status cd req t" if "r = Return answer" for answer
    using serve_status [of cd env req t answer enc] assms(3) that by simp
  show "\<exists>ps. r = Return (JsonPeers ps) \<and> distinct ps \<and> set ps = {p. (f, p) \<in> shares t \<and>
        (\<exists>seen. peerLastSeen t p = Some seen \<and> se_now1 env - 120 * Second \<le> seen)}"
    if "hr_path req = ''/peers'' \<and> f \<noteq> '''' \<and> {p. (f, p) \<in> shares t} \<subseteq> set (se_ordP env)"
  proof -
    have "op_ok (GetPeers f (se_now1 env) (se_ord env) (se_ordA env) (se_ordP env)) t"
      using assms(2) by (simp add: env_ok_def)
    from HandleGetPeers_inv [OF inv this] that show ?thesis
      using assms(3,4) by (auto simp: serve_def main_routes_def)
  qed
  show "r = Return (JsonFileInfo info)" if "hr_path req = ''/metadata'' \<and> f \<noteq> ''''" "fileIndex t f = Some info" for info
    using that assms(3,4) by (simp add: serve_def main_routes_def HandleGetMetadata_def)
qed

text \<open>
  \<^verbatim>\<open>StartTracker\<close> starts a tracker that no download can use: it registers only two of the six
  routes, so a node that asks it for the metadata of a file, even of one it has just accepted an
  announcement for, is told that the file is not available.
\<close>

theorem StartTracker_serves_no_downloads:
  assumes "hr_path req = ''/metadata''"
  shows "\<exists>r. serve StartTracker_routes cd env req t = (t, Return r) \<and>
    DownloadFile_start fl enc dec (Inr (http_reply encJ r)) connect ord fileID fs s =
      Return (fs, s, Inl (Errorf (''file '' @ fileID @ '' is not available for download'')))"
  using assms by (simp add: serve_def StartTracker_routes_def http_reply_def DownloadFile_start_def)

subsection \<open>A node's life\<close>

lemma node_server_facts:
  "sv_activeFiles (fst (node_server f)) = Map.empty" "so_TrackerAddr (sv_opts (fst (node_server f))) = cf_tracker f"
  "so_ListenAddr (sv_opts (fst (node_server f))) = cf_listen f" "\<not> sv_quitch (fst (node_server f))"
  by (simp_all add: node_server_def makeServer_def SetTrackerAddress_def Let_def)

text \<open>The id of the file the process was asked to share, on the disk it started with.\<close>

definition own_file :: "cli_flags \<Rightarrow> filesystem \<Rightarrow> string \<Rightarrow> bool" where
  "own_file f fs fileID \<longleftrightarrow>
     cf_file f \<noteq> [] \<and> (\<exists>content. fs (cf_file f) = Some content \<and> fileID = calculateHash content)"

definition seeds :: "cli_flags \<Rightarrow> filesystem \<Rightarrow> FileServer \<Rightarrow> bool" where
  "seeds f fs s \<longleftrightarrow>
     (if cf_file f = [] then sv_activeFiles s = Map.empty
      else \<exists>content m. fs (cf_file f) = Some content \<and> sv_activeFiles s = [calculateHash content \<mapsto> m] \<and>
        md_OriginalPath m = cf_file f)"

lemma seeds_own: "seeds f fs s \<Longrightarrow> fileID \<in> dom (sv_activeFiles s) \<Longrightarrow> own_file f fs fileID"
  by (auto simp: seeds_def own_file_def split: if_splits)


lemma announceToTracker_ids: "a \<in> set (fst (announceToTracker env post fileID la m)) \<Longrightarrow> an_FileID a = fileID"
  by (auto simp: announceToTracker_def announcement_of_def split: sum.splits prod.splits)

lemma announce_tick_ids: "announce_tick quit env post fileID s = (alive, sent) \<Longrightarrow> a \<in> set sent \<Longrightarrow> an_FileID a = fileID"
  by (auto simp: announce_tick_def announceToTracker_ids split: option.splits if_splits)

lemma ShareFile_sent:
  assumes "ShareFile fl enc env post path fs s = Return (fs1, s1, sent, err)" and "a \<in> set sent"
  shows "\<exists>content. fs path = Some content \<and> an_FileID a = calculateHash content"
  using assms
  by (auto simp: ShareFile_def Let_def os_Open_def announceToTracker_ids dest!: generateFileID_result
      split: sum.splits outcome.splits prod.splits option.splits if_splits)

lemma share_phase_announces:
  "share_phase f fs s (Return (fs1, s1, sent, err)) \<Longrightarrow> a \<in> set sent \<Longrightarrow> own_file f fs (an_FileID a)"
  by (erule share_phase.cases) (auto simp: own_file_def dest: ShareFile_sent [OF sym])

lemma share_phase_keeps:
  "share_phase f fs s (Return (fs1, s1, sent, err)) \<Longrightarrow> sv_opts s1 = sv_opts s \<and> sv_quitch s1 = sv_quitch s"
  by (erule share_phase.cases) (auto dest!: ShareFile_state [OF sym])

lemma share_phase_seeds:
  assumes "share_phase f fs s (Return (fs1, s1, sent, None))" and "sv_activeFiles s = Map.empty"
  shows "seeds f fs s1"
  using assms
proof cases
  case (share_file fl enc env post)
  from ShareFile_seeds [OF share_file(1) [symmetric]] obtain content hs where "fs (cf_file f) = Some content"
    and s1: "s1 = s\<lparr>sv_activeFiles := (sv_activeFiles s)(calculateHash content \<mapsto>
      shared_metadata (calculateHash content) (cf_file f) hs (calculateHash content) (int (length content)))\<rparr>" by blast
  moreover have "md_OriginalPath (shared_metadata (calculateHash content) (cf_file f) hs (calculateHash content)
      (int (length content))) = cf_file f" by (simp add: shared_metadata_def)
  ultimately show ?thesis
    unfolding s1 seeds_def using share_file(2) assms(2) by (simp del: fun_upd_apply) blast
qed (auto simp: seeds_def)

lemma download_phase_keeps:
  "download_phase f fs s fs' s' err \<Longrightarrow> sv_activeFiles s' = sv_activeFiles s \<and> sv_opts s' = sv_opts s"
  by (induction rule: download_phase.induct) (auto dest: DownloadFile_keeps)

lemma download_phase_quitch: "download_phase f fs s fs' s' err \<Longrightarrow> sv_quitch s' = sv_quitch s"
  by (induction rule: download_phase.induct) (auto dest: DownloadFile_quitch)

lemma StopSeedingFile_id:
  "fst (snd (StopSeedingFile env answer fileID s)) = Some rm \<Longrightarrow> rm_FileID rm = fileID"
  by (auto simp: StopSeedingFile_def Let_def split: sum.splits http_result.splits if_splits)

lemma stop_all_ids: "rm \<in> set (snd (stop_all env post k files s)) \<Longrightarrow> rm_FileID rm \<in> set files"
  by (induction files arbitrary: k s)
    (auto simp: case_prod_unfold dest: StopSeedingFile_id split: option.splits)

lemma Cleanup_ids: "Cleanup env post ord s = Return (s', rms) \<Longrightarrow> rm \<in> set rms \<Longrightarrow> rm_FileID rm \<in> dom (sv_activeFiles s)"
  using stop_all_ids [of rm env post 0 "range_keys ord (sv_activeFiles s)" s]
  by (auto simp: Cleanup_def split: prod.splits if_splits)

text \<open>
  The invariant of a process that has a tracker address: which file it may seed and announce at each
  point of \<^verbatim>\<open>main\<close>, and that removals are the last thing it sends.
\<close>

definition server_at :: "cli_flags \<Rightarrow> filesystem \<Rightarrow> main_pc \<Rightarrow> filesystem \<Rightarrow> FileServer \<Rightarrow> bool" where
  "server_at f fs pc disk s \<longleftrightarrow> \<not> sv_quitch s \<and>
     (if pc \<in> {AtStop, AtShare} then disk = fs \<and> sv_activeFiles s = Map.empty else seeds f fs s)"

definition main_inv :: "cli_flags \<Rightarrow> filesystem \<Rightarrow> process_state \<Rightarrow> bool" where
  "main_inv f fs st \<longleftrightarrow>
     (\<exists>s. ms_server st = Some s \<and> sv_opts s = sv_opts (fst (node_server f)) \<and>
       (cf_stop_seeding f \<noteq> [] \<longrightarrow> sv_activeFiles s = Map.empty \<and> ms_pc st = AtStop) \<and>
       (ms_result st = Running \<longrightarrow> ms_removed st = [] \<and> server_at f fs (ms_pc st) (ms_fs st) s)) \<and>
     (\<forall>a \<in> set (ms_announced st). own_file f fs (an_FileID a)) \<and>
     (\<forall>rm \<in> set (ms_removed st). if cf_stop_seeding f \<noteq> [] then rm_FileID rm = cf_stop_seeding f
        else own_file f fs (rm_FileID rm)) \<and>
     (ms_removed st \<noteq> [] \<longrightarrow> ms_result st = Exited)"

lemma main_inv_server:
  assumes "main_inv f fs st" and "ms_server st = Some s"
  shows "sv_opts s = sv_opts (fst (node_server f))" "cf_stop_seeding f \<noteq> [] \<Longrightarrow> sv_activeFiles s = Map.empty"
    "ms_result st = Running \<Longrightarrow> server_at f fs (ms_pc st) (ms_fs st) s"
    "ms_result st = Running \<Longrightarrow> ms_removed st = []"
  using assms by (auto simp: main_inv_def)

lemma server_at_active:
  "server_at f fs pc disk s \<Longrightarrow> sv_activeFiles s' = sv_activeFiles s \<Longrightarrow> sv_quitch s' = sv_quitch s \<Longrightarrow>
     pc \<in> {AtStop, AtShare} \<longrightarrow> disk' = disk \<Longrightarrow> server_at f fs pc disk' s'"
  by (auto simp: server_at_def seeds_def split: if_splits)

lemma server_at_own:
  "server_at f fs pc disk s \<Longrightarrow> fileID \<in> dom (sv_activeFiles s) \<Longrightarrow> own_file f fs fileID"
  by (auto simp: server_at_def intro: seeds_own split: if_splits)

text \<open>Signals: the removals are for seeded files.\<close>

lemma shutdown_inv:
  assumes inv: "main_inv f fs st" and run: "ms_result st = Running" and srv: "ms_server st = Some s0"
    and same: "sv_activeFiles s = sv_activeFiles s0" "sv_opts s = sv_opts s0"
  shows "main_inv f fs (shutdown env post ord s (st\<lparr>ms_fs := disk\<rparr>))"
proof (cases "Cleanup env post ord s")
  case Panic
  then show ?thesis using inv run srv same by (auto simp: shutdown_def main_inv_def)
next
  case (Return r)
  obtain s' rms where r: "r = (s', rms)" by fastforce
  note c = Return [unfolded r]
  have s': "sv_opts s' = sv_opts s0" "sv_activeFiles s0 = Map.empty \<Longrightarrow> sv_activeFiles s' = Map.empty"
    using Cleanup_state [OF c] same by auto
  have "if cf_stop_seeding f \<noteq> [] then rm_FileID rm = cf_stop_seeding f else own_file f fs (rm_FileID rm)"
    if "rm \<in> set rms" for rm
    using Cleanup_ids [OF c that] main_inv_server [OF inv srv] server_at_own run same by auto
  then show ?thesis
    using inv run srv same s' by (auto simp: shutdown_def c main_inv_def)
qed

lemma main_inv_step: "main_step f st st' \<Longrightarrow> main_inv f fs st \<Longrightarrow> main_inv f fs st'"
proof (induction rule: main_step.induct)
  case (network st s s')
  then have keep: "sv_activeFiles s' = sv_activeFiles s" "sv_opts s' = sv_opts s" "sv_quitch s' = sv_quitch s"
    using network_step_keeps network_step_quitch by blast+
  have "server_at f fs (ms_pc st) (ms_fs st) s'"
    using server_at_active main_inv_server(3) [OF network(5,2,1)] keep(1,3) by blast
  then show ?case using network keep by (auto simp: main_inv_def)
next
  case (announce st s fileID quit env post alive sent)
  then have "own_file f fs fileID" using main_inv_server(3) [OF announce(5,2,1)] server_at_own by blast
  then show ?case using announce announce_tick_ids [OF announce(4)] by (auto simp: main_inv_def)
next
  case (signal st s ord env post)
  then show ?case using shutdown_inv [of f fs st s s env post ord "ms_fs st"] by simp
next
  case (signal_in_download st s fs' s' ord env post)
  then show ?case
    using shutdown_inv [of f fs st s s' env post ord fs'] DownloadFile_looping_keeps by blast
next
  case (stop_seeding st s env answer s' rm err)
  have "sv_opts s' = sv_opts s" "sv_activeFiles s' = (sv_activeFiles s)(cf_stop_seeding f := None)"
    using handlers_StopSeedingFile(3,4) [of env answer "cf_stop_seeding f" s] stop_seeding(5) by simp_all
  moreover have "rm_FileID r = cf_stop_seeding f" if "rm = Some r" for r
    using StopSeedingFile_id [of env answer "cf_stop_seeding f" s r] stop_seeding(5) that by simp
  ultimately show ?case using stop_seeding by (auto simp: main_inv_def split: option.splits)
next
  case (no_stop st)
  then show ?case by (auto simp: main_inv_def server_at_def)
next
  case (shared st s fs1 s1 sent)
  have at: "ms_fs st = fs" "sv_activeFiles s = Map.empty" "\<not> sv_quitch s"
    using main_inv_server(3) [OF shared(5,2,1)] shared(3) by (simp_all add: server_at_def)
  have "cf_stop_seeding f = []" using shared(2,3,5) by (auto simp: main_inv_def)
  moreover have "server_at f fs AtDownload fs1 s1"
    using share_phase_seeds [OF shared(4) at(2)] share_phase_keeps [OF shared(4)] at by (simp add: server_at_def)
  ultimately show ?case
    using shared share_phase_announces [OF shared(4)] share_phase_keeps [OF shared(4)] at
    by (auto simp: main_inv_def)
next
  case (share_failed st s fs1 s1 sent e)
  have "ms_fs st = fs" using main_inv_server(3) [OF share_failed(5,2,1)] share_failed(3) by (simp add: server_at_def)
  moreover have "cf_stop_seeding f = []" using share_failed(2,3,5) by (auto simp: main_inv_def)
  ultimately show ?case
    using share_failed share_phase_announces [OF share_failed(4)] share_phase_keeps [OF share_failed(4)]
    by (auto simp: main_inv_def)
next
  case (downloaded st s fs2 s2)
  have keep: "sv_activeFiles s2 = sv_activeFiles s" "sv_opts s2 = sv_opts s" "sv_quitch s2 = sv_quitch s"
    using download_phase_keeps [OF downloaded(4)] download_phase_quitch [OF downloaded(4)] by simp_all
  have "cf_stop_seeding f = []" using downloaded(2,3,5) by (auto simp: main_inv_def)
  moreover have "seeds f fs s" "\<not> sv_quitch s"
    using main_inv_server(3) [OF downloaded(5,2,1)] downloaded(3) by (simp_all add: server_at_def)
  then have "server_at f fs AtSelect fs2 s2" unfolding server_at_def seeds_def keep by simp
  ultimately show ?case using downloaded keep by (auto simp: main_inv_def)
next
  case (download_failed st s fs2 s2 e)
  have "cf_stop_seeding f = []" using download_failed(2,3,5) by (auto simp: main_inv_def)
  then show ?case using download_failed download_phase_keeps [OF download_failed(4)] by (auto simp: main_inv_def)
qed (auto simp: main_inv_def)

interpretation main_system: invariant_system "\<lambda>st. st = main_start f fs \<and> cf_tracker f \<noteq> []" "main_step f" "main_inv f fs"
  for f fs
  by unfold_locales
    (auto simp: main_inv_step, simp add: main_start_def main_inv_def server_at_def node_server_facts)

lemma main_node_inv: "main_node f fs st \<Longrightarrow> cf_tracker f \<noteq> [] \<Longrightarrow> main_inv f fs st"
  unfolding main_node_def using main_system.reachable_inv by blast

lemma main_node_no_tracker: "main_node f fs st \<Longrightarrow> cf_tracker f = [] \<Longrightarrow> st = main_start f fs"
  unfolding main_node_def by (erule converse_rtranclpE) (auto simp: main_start_def elim: main_step.cases)



text \<open>
  C34: \<^verbatim>\<open>-stop-seeding\<close> does not stop the seeder. The command runs in a process of its own, whose
  node seeds nothing; it makes the tracker drop the listing of its own address, but the process
  that really seeds the file announces it again at its next tick, and is then listed as before.
\<close>

theorem stop_seeding_is_undone:
  assumes "main_node f fs st" and "cf_stop_seeding f \<noteq> []" and "rm \<in> set (ms_removed st)"
    and "t' = fst (HandleRemove ''POST'' (Some rm) t)"
    and "sv_activeFiles seeder (cf_stop_seeding f) = Some m" and "\<not> sv_quitch seeder"
    and "getPeerAddress (fst env) (snd env) (so_ListenAddr (sv_opts seeder)) = Inr addr" and "post_ok (post 0)"
    and "announce_tick quit env post (cf_stop_seeding f) seeder = (alive, sent)"
    and "t'' = fold (\<lambda>a t. fst (HandleAnnounce ''POST'' (Some a) now1 now2 t)) sent t'"
  shows "rm_FileID rm = cf_stop_seeding f \<and> (\<exists>s. ms_server st = Some s \<and> sv_activeFiles s = Map.empty) \<and>
    alive \<and> (cf_stop_seeding f, addr) \<in> shares t''"
proof -
  have "cf_tracker f \<noteq> []"
    using main_node_no_tracker [OF assms(1)] assms(3) by (auto simp: main_start_def)
  then have "main_inv f fs st" using main_node_inv assms(1) by blast
  then have node: "rm_FileID rm = cf_stop_seeding f \<and> (\<exists>s. ms_server st = Some s \<and> sv_activeFiles s = Map.empty)"
    using assms(2,3) unfolding main_inv_def by fastforce
  have "announceToTracker env post (cf_stop_seeding f) (so_ListenAddr (sv_opts seeder)) m =
      ([announcement_of (cf_stop_seeding f) addr m], None)"
    using assms(7,8) by (simp add: announceToTracker_def numeral_3_eq_3 post_ok_def split: http_result.splits)
  then have "alive" "sent = [announcement_of (cf_stop_seeding f) addr m]"
    using assms(5,6,9) by (simp_all add: announce_tick_def)
  moreover from this have "(cf_stop_seeding f, addr) \<in> shares t''"
    using assms(10) by (simp add: HandleAnnounce_def Let_def announcement_of_def shares_def add_peer_def)
  ultimately show ?thesis using node by simp
qed

subsection \<open>Port mapping\<close>

definition maps_port :: "int \<Rightarrow> upnp_client \<times> go_error option \<Rightarrow> bool" where
  "maps_port port ce \<longleftrightarrow> snd ce = None \<and>
     (case GetExternalIPAddress (fst ce) of
        Inl _ \<Rightarrow> False
      | Inr ip \<Rightarrow> AddPortMapping (fst ce) (word_of_int port) (word_of_int port) ip = None)"

text \<open>
  \<^verbatim>\<open>setupUPnP\<close>, given an error slot for every client, gives the mapping to the first client
  that was set up without an error and accepts it, and to no other; it fails if there is none. The ports
  are the port modulo 65536, and the internal client is the gateway's own external address. When
  the library reports clients and no errors, it panics.
\<close>

theorem setupUPnP_spec:
  "(length clients \<le> length errors \<longrightarrow> setupUPnP (Inr (clients, errors)) port =
     Return (case find (maps_port port) (zip clients errors) of
        None \<Rightarrow> ([], Some (Errorf (''failed to set up UPnP port mapping on port '' @ show_int port)))
      | Some (c, e) \<Rightarrow> ([(word_of_int port, word_of_int port, projr (GetExternalIPAddress c))], None))) \<and>
   (clients \<noteq> [] \<longrightarrow> setupUPnP (Inr (clients, [])) port = Panic)"
proof (intro conjI impI)
  show "setupUPnP (Inr (clients, [])) port = Panic" if "clients \<noteq> []"
    using that by (cases clients) (simp_all add: setupUPnP_def)
  assume "length clients \<le> length errors"
  then have "upnp_loop port clients errors =
     Return (case find (maps_port port) (zip clients errors) of
        None \<Rightarrow> ([], Some (Errorf (''failed to set up UPnP port mapping on port '' @ show_int port)))
      | Some (c, e) \<Rightarrow> ([(word_of_int port, word_of_int port, projr (GetExternalIPAddress c))], None))"
    by (induction port clients errors rule: upnp_loop.induct)
      (auto simp: maps_port_def split: sum.splits option.splits)
  then show "setupUPnP (Inr (clients, errors)) port =
     Return (case find (maps_port port) (zip clients errors) of
        None \<Rightarrow> ([], Some (Errorf (''failed to set up UPnP port mapping on port '' @ show_int port)))
      | Some (c, e) \<Rightarrow> ([(word_of_int port, word_of_int port, projr (GetExternalIPAddress c))], None))"
    by (simp add: setupUPnP_def)
qed

subsection \<open>Examples\<close>

definition example_codecs :: codecs where
  "example_codecs =
     \<lparr>dec_announce = (\<lambda>_. Some example_announced), dec_heartbeat = (\<lambda>_. None),
      dec_remove = (\<lambda>_. None), cd_Atoi = (\<lambda>_. 0), cd_ToLower = id\<rparr>"

definition example_request :: "string \<Rightarrow> http_request" where
  "example_request path = \<lparr>hr_path = path, hr_method = ''POST'', hr_query = (\<lambda>_. example_hash), hr_body = []\<rparr>"

definition example_serve_env :: serve_env where
  "example_serve_env = \<lparr>se_now1 = 5, se_now2 = 7, se_ord = [], se_ordA = (\<lambda>_. []), se_ordP = []\<rparr>"


theorem tracker_server_refines_witness:
  "\<exists>t' r. serve main_routes example_codecs example_serve_env (example_request ''/announce'') NewTracker = (t', r) \<and>
    abs_tracker t' = ({(example_hash, ''8.8.4.4:3000|10.0.0.2:3000'')}, [''8.8.4.4:3000|10.0.0.2:3000'' \<mapsto> 7])"
proof -
  let ?req = "example_request ''/announce''"
  obtain t' r where s: "serve main_routes example_codecs example_serve_env ?req NewTracker = (t', r)"
    by fastforce
  have ok: "env_ok example_codecs example_serve_env ?req NewTracker"
    by (simp add: env_ok_def example_codecs_def example_serve_env_def example_request_def NewTracker_def covers_def)
  have op: "request_op example_codecs example_serve_env ?req = Some (Announce ''POST'' (Some example_announced) 5 7)"
    by (simp add: request_op_def example_codecs_def example_serve_env_def example_request_def)
  have "abs_tracker t' = spec_op (Announce ''POST'' (Some example_announced) 5 7) (abs_tracker NewTracker)"
    using tracker_server_refines [OF rtranclp.rtrancl_refl ok s refl] unfolding op by simp
  then show ?thesis
    using s by (simp add: abs_tracker_def shares_def NewTracker_def example_announced_def announcement_of_def)
qed

theorem StartTracker_serves_no_downloads_witness:
  "\<exists>r. serve StartTracker_routes example_codecs example_serve_env (example_request ''/metadata'') NewTracker =
      (NewTracker, Return r) \<and>
    DownloadFile_start no_faults (\<lambda>_. []) (\<lambda>_. Inr example_file_info) (Inr (http_reply (\<lambda>_. []) r)) id [] ''f'' Map.empty
      example_node =
      Return (Map.empty, example_node, Inl (Errorf (''file '' @ ''f'' @ '' is not available for download'')))"
  by (rule StartTracker_serves_no_downloads) (simp add: example_request_def)

lemma example_start_node: "\<exists>t' nodes. Start (\<lambda>_. None) (\<lambda>_. None) (node_server f) = (t', nodes, None)"
  by (simp add: Start_def ListenAndAccept_def setupUDPListener_def split: prod.splits)



theorem stop_seeding_is_undone_witness:
  "\<exists>st rm. main_node (default_flags\<lparr>cf_tracker := ''t'', cf_stop_seeding := ''f''\<rparr>) Map.empty st \<and> ms_removed st = [rm] \<and>
    (''f'', ''8.8.4.4:3000|10.0.0.2:3000'') \<in>
      shares (fst (HandleAnnounce ''POST'' (Some (announcement_of ''f'' ''8.8.4.4:3000|10.0.0.2:3000'' example_meta)) 5 7
        (fst (HandleRemove ''POST'' (Some rm) NewTracker))))"
proof -
  let ?f = "default_flags\<lparr>cf_tracker := ''t'', cf_stop_seeding := ''f''\<rparr>" and ?post = "\<lambda>_. Status 200 []"
  let ?rm = "\<lparr>rm_FileID = ''f'', rm_PeerAddr = ''8.8.4.4:3000|10.0.0.2:3000''\<rparr>"
  obtain s' where stop: "StopSeedingFile example_env (Status 200 []) ''f'' (fst (node_server ?f)) = (s', Some ?rm, None)"
    by (simp add: StopSeedingFile_def Let_def node_server_facts default_flags_def example_env_addr)
  let ?st = "(main_start ?f Map.empty)\<lparr>ms_server := Some s', ms_removed := [?rm], ms_result := Exited\<rparr>"
  have "main_step ?f (main_start ?f Map.empty) ?st"
    using stop_seeding [of "main_start ?f Map.empty" "fst (node_server ?f)" ?f example_env "Status 200 []" s' "Some ?rm" None]
      stop by (simp add: main_start_def default_flags_def)
  then have run: "main_node ?f Map.empty ?st" by (simp add: main_node_def r_into_rtranclp)
  have listen: "so_ListenAddr (sv_opts example_seeder) = '':3000''" "\<not> sv_quitch example_seeder"
    by (simp_all add: example_seeder_def makeServer_def Let_def)
  have "announce_loop ?post 0 3 None = (1, None)" by (simp add: numeral_3_eq_3)
  then have tick: "announce_tick False example_env ?post ''f'' example_seeder =
      (True, [announcement_of ''f'' ''8.8.4.4:3000|10.0.0.2:3000'' example_meta])"
    by (simp add: announce_tick_def announceToTracker_def listen example_env_addr)
  have "(''f'', ''8.8.4.4:3000|10.0.0.2:3000'') \<in> shares
      (fold (\<lambda>a t. fst (HandleAnnounce ''POST'' (Some a) 5 7 t)) [announcement_of ''f'' ''8.8.4.4:3000|10.0.0.2:3000'' example_meta]
        (fst (HandleRemove ''POST'' (Some ?rm) NewTracker)))"
    using stop_seeding_is_undone [OF run, of ?rm "fst (HandleRemove ''POST'' (Some ?rm) NewTracker)" NewTracker example_seeder
        example_meta example_env "''8.8.4.4:3000|10.0.0.2:3000''" ?post False] tick
    by (simp add: listen example_env_addr post_ok_def)
  then show ?thesis using run by (intro exI [of _ ?st] exI [of _ ?rm]) simp
qed

theorem setupUPnP_spec_witness:
  "setupUPnP (Inr ([\<lparr>GetExternalIPAddress = Inl EOF, AddPortMapping = (\<lambda>_ _ _. None)\<rparr>,
      \<lparr>GetExternalIPAddress = Inr ''8.8.4.4'', AddPortMapping = (\<lambda>_ _ _. None)\<rparr>], [None, None])) 68536 =
    Return ([(3000, 3000, ''8.8.4.4'')], None)"
  using setupUPnP_spec [of "[\<lparr>GetExternalIPAddress = Inl EOF, AddPortMapping = (\<lambda>_ _ _. None)\<rparr>,
      \<lparr>GetExternalIPAddress = Inr ''8.8.4.4'', AddPortMapping = (\<lambda>_ _ _. None)\<rparr>]" "[None, None]" 68536]
  by (simp add: maps_port_def)

end
