(* ===== verification/Spec2Isabelle.thy ===== *)
theory Spec2Isabelle
  imports Go_Prelude Go_Net Go_IO Go_Hash Go_Aes Tracker Piece_Manager Wire Transport Piece_Verification
    Store Crypto Peer_Addr File_Server Download Download_Termination Download_Properties Command_Line
begin

text \<open>
  \<^bold>\<open>The program.\<close> A peer-to-peer file sharing program. A \<^emph>\<open>tracker\<close> (p2p/tracker.go) is an HTTP
  server that knows which peers share which files. A \<^emph>\<open>node\<close> (server.go) shares files: it cuts a
  file into chunks of 16 MiB, hashes them, announces the file to the tracker and answers chunk
  requests; and it downloads files: it asks the tracker for metadata and peers, dials the peers
  (p2p/tcp_transport.go, p2p/udp_hole.go), lets a \<^emph>\<open>piece manager\<close> (piece_manager.go) choose chunks
  and fetches them with up to ten workers. Messages are gob values in length-prefixed frames
  (p2p/message.go, p2p/encoding.go). main.go starts a tracker or a node.

  \<^bold>\<open>The model.\<close> One theory per component, in the order of their dependencies:
  \<^item> Go_Prelude, Go_Net, Go_IO, Go_Hash, Go_Aes: what the code uses of Go and its standard library:
    wrapping integers, panics (\<open>outcome\<close>), slices, iteration over maps, strings, address parsing,
    errors, streams as lists of what their reads meet, files with faults, SHA-1, MD5, AES in
    counter mode (executable). The prelude also has the locales of the library: \<open>keyed_loop\<close> (a range
    loop that treats every key on its own), \<open>invariant_system\<close> and its extension \<open>simulation\<close>.
  \<^item> Tracker (p2p/tracker.go): the three maps as a record, every handler, both cleanups; the abstract
    tracker (who shares what, when each peer was last seen) and the refinement.
  \<^item> Piece_Manager (piece_manager.go): the piece table, choice of pieces, status changes.
  \<^item> Wire (p2p/message.go, p2p/encoding.go, TCPPeer.Send): messages and framing, with the locale
    \<open>framing\<close> and its interpretation on \<open>frame\<close> and \<open>DefaultDecoder_Decode\<close>.
  \<^item> Transport (p2p/tcp_transport.go, p2p/udp_hole.go, p2p/handshake.go): the loops of the
    connection goroutines, accepting, hole punching, and \<open>dial_step\<close>, the caller of Dial with its
    goroutines.
  \<^item> Piece_Verification (piece_verification.go), Store (store.go), Crypto (crypto.go), Peer_Addr
    (shared/functions.go and the address functions of server.go).
  \<^item> File_Server (server.go, handleChunkRequest of store.go): the node's state and operations, and the
    step relation \<open>server_step\<close> of everything that changes it (\<open>server_run\<close> with the history of
    what was shared).
  \<^item> Download (server.go): writeAndVerifyChunk, downloadChunk, and DownloadFile as a sequential start
    followed by the step relation \<open>dl_step\<close> of its main loop and workers, interleaved in any order.
  \<^item> Download_Termination: runs in which nothing fails end; Download_Properties: what a download does.
  \<^item> Command_Line (main.go): routes and multiplexer, the running tracker, and \<open>main_step\<close>, a
    node's process with the goroutines main starts, the signal handler among them.
  \<^item> This theory: properties of the whole network, from sharing to downloading.

  A Go struct is a record with the fields of the source, a map is a partial function, a
  \<^verbatim>\<open>map[string]bool\<close> whose values are all true is a set, an \<^verbatim>\<open>int\<close> is an integer with \<open>wrap64\<close> written
  where it can overflow, a byte is an 8-bit word. What the environment decides is an argument: the
  order in which a map is ranged over, the time, the answers of other programs, which I/O operations
  fail and how much each read or write transfers. Goroutines are step relations, or functions
  of what their environment does. Encoders of \<^verbatim>\<open>encoding/gob\<close> and \<^verbatim>\<open>encoding/json\<close>,
  \<^verbatim>\<open>sort.Slice\<close>, \<^verbatim>\<open>strings.ToLower\<close> and the UPnP library are parameters; theorems that need it assume that
  a decoder inverts its encoder, or that sorting permutes.

  \<^bold>\<open>What is proved.\<close>
  \<^item> The tracker refines its abstract specification, operation by operation and over all that its HTTP server
    serves; its indexes agree in every reachable state; what announcing, listing and asking for
    peers return.
  \<^item> Framing round trips under every segmentation; what the connection loop delivers.
  \<^item> The piece manager is consistent, hands out as many eligible pieces as there are, rarest first.
  \<^item> Chunks, hashes and metadata describe the file; metadata and encryption round trips.
  \<^item> A node's invariant; sharing, announcing with retries, connecting, stopping, shutting down.
  \<^item> Downloading: a finished download is the shared file under every interleaving, failed and duplicate
    attempts included; downloadChunk refines the workers of the step relation; runs without failures are
    finite and never stuck; what happens without peers at the start and on late failures.
  \<^item> End to end: ShareFile, the tracker, chunk requests, frames and DownloadFile together give the shared
    content, whose hash is the file id; and the way back when seeding stops.
  \<^item> Behaviour the code does not intend (a node that refuses requests for good, a heartbeat that
    sends nothing, hashes that are never compared, panics on wrapped page offsets and on two answers to one dial) is stated and proved like the rest.

  \<^bold>\<open>Bounds.\<close> Loops are structural recursions over what they consume, or carry a measure; there is no
  fuel. Retry loops have the three attempts of the code. Sizes are bounded where 64-bit
  arithmetic requires it: files below \<open>2 ^ 62\<close> bytes, or files that with one chunk stay below \<open>2 ^ 63\<close>.

  \<^bold>\<open>Not modelled.\<close> Log output, the progress reports of a download, sleeping and socket options;
  data races (locks are taken to make operations atomic; where the code reads shared data outside a
  lock, or does one thing under several locks, the text of the operation says so); the interface declarations of p2p/transport.go; GOBDecoder,
  which is one call of \<^verbatim>\<open>encoding/gob\<close> that nothing uses; the tests.
\<close>

section \<open>Across the network\<close>

text \<open>
  What a peer can receive for chunk \<open>j\<close> from a seeder in state \<open>s\<close> with the files \<open>fs\<close>: the data
  of the response that its decoder finds in the bytes \<^verbatim>\<open>handleChunkRequest\<close> wrote. Opening the
  file may fail on some attempts, and the connection may break, in which case nothing is received.
\<close>

definition served ::
  "(Message \<Rightarrow> go_error + bytes) \<Rightarrow> (bytes \<Rightarrow> go_error + Message) \<Rightarrow> filesystem \<Rightarrow> FileServer \<Rightarrow> string \<Rightarrow>
   int \<Rightarrow> bytes \<Rightarrow> bool" where
  "served enc dec fs s fileID j data \<longleftrightarrow>
     (\<exists>fls wr out c payload c' msg. 0 \<le> j \<and> (\<forall>k path. readat_fault (fls k) path = None) \<and> honest wr \<and>
        handleChunkRequest enc fls fs wr \<lparr>rq_FileID = fileID, rq_Chunk = j\<rparr> s = Return (out, None) \<and>
        segments c = Some out \<and> DefaultDecoder_Decode c = (Inr payload, c') \<and> dec payload = Inr msg \<and>
        msg_Payload msg = ChunkResponse \<lparr>rs_FileID = fileID, rs_Chunk = j, rs_Data = data\<rparr>)"

lemma servedI:
  assumes "0 \<le> j" and "\<And>k path. readat_fault (fls k) path = None" and "honest wr"
    and "handleChunkRequest enc fls fs wr \<lparr>rq_FileID = fileID, rq_Chunk = j\<rparr> s = Return (out, None)"
    and "segments c = Some out" and "DefaultDecoder_Decode c = (Inr payload, c')" and "dec payload = Inr msg"
    and "msg_Payload msg = ChunkResponse \<lparr>rs_FileID = fileID, rs_Chunk = j, rs_Data = data\<rparr>"
  shows "served enc dec fs s fileID j data"
  unfolding served_def using assms by blast

lemma served_block:
  assumes "served enc dec fs s fileID j data" and "sv_activeFiles s fileID = Some m"
    and "fs (md_OriginalPath m) = Some content" and "length content < 2 ^ 62"
    and "md_NumChunks m = int (num_chunks 16777216 (length content))"
    and codec: "\<And>i b. enc (NewChunkResponseMessage fileID (int i) (block 16777216 content i)) = Inr b \<Longrightarrow>
      b \<noteq> [] \<and> length b \<le> maxMessageSize \<and>
      dec b = Inr (NewChunkResponseMessage fileID (int i) (block 16777216 content i))"
  shows "data = block 16777216 content (nat j)"
proof -
  from assms(1) obtain fls wr out c payload c' msg where j: "0 \<le> j"
    and faults: "\<And>k path. readat_fault (fls k) path = None" and "honest wr"
    and req: "handleChunkRequest enc fls fs wr \<lparr>rq_FileID = fileID, rq_Chunk = j\<rparr> s = Return (out, None)"
    and decode: "segments c = Some out" "DefaultDecoder_Decode c = (Inr payload, c')" "dec payload = Inr msg"
    and msg: "msg_Payload msg = ChunkResponse \<lparr>rs_FileID = fileID, rs_Chunk = j, rs_Data = data\<rparr>"
    unfolding served_def by blast
  obtain i where i: "j = int i" using j nonneg_int_cases by blast
  from handleChunkRequest_sent [OF req \<open>honest wr\<close>] assms(2) obtain chunkData b where
    r: "int i < md_NumChunks m" "read_retry fls fs (md_OriginalPath m) (int i) 0 3 None = Return (Inr chunkData)"
      "enc (NewChunkResponseMessage fileID (int i) chunkData) = Inr b" "out = frame b"
    by (auto simp: i)
  have "i * 16777216 < length content"
    using r(1) assms(5) num_chunks_less [of 16777216 i "length content"] by simp
  then have chunk: "chunkData = block 16777216 content i"
    using read_retry_block [OF faults assms(3,4) _ r(2)] by blast
  with r(3) codec have b: "b \<noteq> []" "length b \<le> maxMessageSize"
    "dec b = Inr (NewChunkResponseMessage fileID (int i) chunkData)" by auto
  then have "payload = b" using wire.recv_put [of b c "[]"] decode(1,2) r(4) by auto
  with decode(3) b(3) msg show ?thesis by (auto simp: chunk i NewChunkResponseMessage_def)
qed

lemma announced_metadata:
  assumes "a = announcement_of fid peer m" and "md_FileID m = fid" and "fid \<noteq> []" and "fileIndex t fid = None"
    and "t' = fst (HandleAnnounce ''POST'' (Some a) now1 now2 t)"
  shows "\<exists>info. HandleGetMetadata fid t' = JsonFileInfo info \<and> info_to_meta info = m\<lparr>md_OriginalPath := []\<rparr> \<and>
    fi_NumPeers info = int (card (insert peer (case peerIndex t fid of None \<Rightarrow> {} | Some ps \<Rightarrow> ps)))"
  using assms
  by (simp add: HandleAnnounce_def HandleGetMetadata_def Let_def set_NumPeers_def announced_info_def
      announcement_of_def info_to_meta_def add_peer_def)

text \<open>The metadata a downloader works with, once it got them from the tracker.\<close>

lemma shared_start:
  assumes "ShareFile fl enc env post path fs s = Return (fs', s', sent, None)" and "fs path = Some content"
    and "\<And>j. \<exists>cap \<ge> 16777216. read_plan fl path j = ReadSome cap" and "length content < 2 ^ 62"
    and "fileID = calculateHash content" and "a \<in> set sent" and "fileIndex t fileID = None"
    and "t' = fst (HandleAnnounce ''POST'' (Some a) now1 now2 t)"
    and "\<And>info. HandleGetMetadata fileID t' = JsonFileInfo info \<Longrightarrow> decJ (encJ (JsonFileInfo info)) = Inr info"
    and "DownloadFile_start fl2 enc2 decJ (Inr (http_reply encJ (HandleGetMetadata fileID t'))) connect ord fileID fs2 s2 =
      Return (fs3, s3, Inr (meta, d0))"
  shows "\<exists>m. sv_activeFiles s' fileID = Some m \<and> meta = m\<lparr>md_OriginalPath := []\<rparr> \<and>
    md_OriginalPath m = path \<and> md_ChunkSize m = int 16777216 \<and>
    md_NumChunks m = int (num_chunks 16777216 (length content))"
proof -
  have bound: "int (length content) + 16777216 < 9223372036854775808" using assms(4) by simp
  obtain m hs peer where m: "sv_activeFiles s' fileID = Some m"
    "m = shared_metadata fileID path hs fileID (int (length content))"
    "length hs = num_chunks 16777216 (length content)" "a = announcement_of fileID peer m"
    using ShareFile_shared [OF assms(1-3) bound] assms(5,6) by blast
  have fid: "md_FileID m = fileID" "md_OriginalPath m = path" "md_ChunkSize m = int 16777216"
    "md_NumChunks m = int (num_chunks 16777216 (length content))"
    by (simp_all add: m(2,3) shared_metadata_def ChunkSize_def)
  have "length fileID = 40" by (simp add: assms(5))
  then have "fileID \<noteq> []" by auto
  from announced_metadata [OF m(4) fid(1) this assms(7,8)] obtain info where
    info: "HandleGetMetadata fileID t' = JsonFileInfo info" "info_to_meta info = m\<lparr>md_OriginalPath := []\<rparr>" by blast
  have "meta = m\<lparr>md_OriginalPath := []\<rparr>"
    using DownloadFile_start_meta [OF assms(10) [unfolded info(1) http_reply_def response.case] assms(9) [OF info(1)]] info(2) by simp
  with m(1) fid show ?thesis by blast
qed

text \<open>
  C2: From sharing to downloading. A node shares a file; the tracker, which did not know the file,
  processes one of the announcements it was sent; another node asks the tracker for the file and
  downloads it from seeders that still hold it. Whatever the orders, retries, segmentations and
  interleavings: the downloader works with the metadata of the shared file (without its path), and
  if \<^verbatim>\<open>DownloadFile\<close> returns without an error its output file is the shared content, whose
  hash is the file id. JSON and gob are assumed to decode what they encoded, gob's output for
  a chunk to fit into a message.
\<close>

theorem share_then_download:
  assumes "ShareFile fl enc env post path fs s = Return (fs', s', sent, None)" and "fs path = Some content"
    and "\<And>j. \<exists>cap \<ge> 16777216. read_plan fl path j = ReadSome cap" and "length content < 2 ^ 62"
    and "fileID = calculateHash content" and "a \<in> set sent" and "fileIndex t fileID = None"
    and "t' = fst (HandleAnnounce ''POST'' (Some a) now1 now2 t)"
    and "\<And>info. HandleGetMetadata fileID t' = JsonFileInfo info \<Longrightarrow> decJ (encJ (JsonFileInfo info)) = Inr info"
    and "DownloadFile_start fl2 enc2 decJ (Inr (http_reply encJ (HandleGetMetadata fileID t'))) connect ord fileID fs2 s2 =
      Return (fs3, s3, Inr (meta, d0))"
    and "\<And>less xs. mset (sortSlice less xs) = mset xs"
    and "sv_activeFiles seeder fileID = sv_activeFiles s' fileID" and "fs4 path = Some content"
    and "\<And>i b. encM (NewChunkResponseMessage fileID (int i) (block 16777216 content i)) = Inr b \<Longrightarrow>
      b \<noteq> [] \<and> length b \<le> maxMessageSize \<and>
      decM b = Inr (NewChunkResponseMessage fileID (int i) (block 16777216 content i))"
    and "(dl_step sortSlice (md_ChunkSize meta) (served encM decM fs4 seeder fileID))\<^sup>*\<^sup>* d0 d"
    and "dl_main d = Returned None"
  shows "(\<exists>m. sv_activeFiles s' fileID = Some m \<and> meta = m\<lparr>md_OriginalPath := []\<rparr>) \<and>
    dl_file d = content \<and> calculateHash (dl_file d) = fileID"
proof -
  obtain m where m: "sv_activeFiles s' fileID = Some m" "meta = m\<lparr>md_OriginalPath := []\<rparr>"
    "md_OriginalPath m = path" "md_ChunkSize m = int 16777216" "md_NumChunks m = int (num_chunks 16777216 (length content))"
    using shared_start [of fl enc env post path fs s fs' s' sent content fileID a t t' now1 now2 decJ encJ, OF assms(1-10)] by blast
  have ok: "data = block 16777216 content (nat j)" if "served encM decM fs4 seeder fileID j data" for j data
    using served_block [OF that, of m content] assms(4,12-14) m by simp
  have "dl_file d = content"
  proof (rule finished_download [OF assms(10), of 16777216 content sortSlice, OF _ _ _ _ assms(11) _ assms(16)])
    show "(dl_step sortSlice (md_ChunkSize meta) (\<lambda>i data. data = block 16777216 content (nat i)))\<^sup>*\<^sup>* d0 d"
      by (rule dl_steps_mono [OF ok assms(15)])
  qed (use assms(4) m in simp_all)
  with m(1,2) assms(5) show ?thesis by simp
qed

lemma served_available:
  assumes "sv_activeFiles s fileID = Some m" and "length (sv_responseHandlers s) < 5"
    and "fs (md_OriginalPath m) = Some content" and "length content < 2 ^ 62"
    and "md_NumChunks m = int (num_chunks 16777216 (length content))" and "i < num_chunks 16777216 (length content)"
    and "enc (NewChunkResponseMessage fileID (int i) (block 16777216 content i)) = Inr b"
    and "b \<noteq> []" and "length b \<le> maxMessageSize"
    and "dec b = Inr (NewChunkResponseMessage fileID (int i) (block 16777216 content i))"
  shows "served enc dec fs s fileID (int i) (block 16777216 content i)"
proof -
  let ?wr = "\<lambda>_ d. (length d, None)"
  have "reliable ?wr" "honest ?wr" by (simp_all add: reliable_def honest_def)
  have "i * 16777216 < length content"
    using assms(6) num_chunks_less [of 16777216 i "length content"] by simp
  then have "ReadChunk no_faults fs (md_OriginalPath m) (int i) = Return (Inr (block 16777216 content i))"
    using assms(3,4) by (intro ReadChunk_block) (simp_all add: no_faults_def)
  then have "read_retry (\<lambda>_. no_faults) fs (md_OriginalPath m) (int i) 0 3 None = Return (Inr (block 16777216 content i))"
    by (simp add: numeral_3_eq_3)
  then have req: "handleChunkRequest enc (\<lambda>_. no_faults) fs ?wr \<lparr>rq_FileID = fileID, rq_Chunk = int i\<rparr> s = Return (frame b, None)"
    using assms(1,2,5-7) \<open>reliable ?wr\<close> by (intro handleChunkRequest_writes) simp_all
  have seg: "segments [Data (frame b)] = Some (frame b @ [])" by simp
  from wire.recv_put [OF _ this] assms(8,9) obtain c' where c': "DefaultDecoder_Decode [Data (frame b)] = (Inr b, c')" by auto
  show ?thesis
    by (rule servedI [where dec = dec and fls = "\<lambda>_. no_faults" and wr = ?wr, OF _ _ \<open>honest ?wr\<close> req seg [unfolded append_Nil2] c' assms(10)])
      (simp_all add: no_faults_def NewChunkResponseMessage_def)
qed

text \<open>A run in which every chunk is what the seeder serves.\<close>

lemma seeded_run:
  assumes start: "DownloadFile_start fl enc decJ resp connect ord fileID fs s = Return (fs3, s3, Inr (meta, d0))"
    and n: "md_NumChunks meta = int (num_chunks 16777216 (length content))" "md_ChunkSize meta = int 16777216"
    and perm: "\<And>less xs. mset (sortSlice less xs) = mset xs" and peers: "range_keys ord (sv_peers s3) \<noteq> []"
    and len: "length content < 2 ^ 62"
    and av: "\<And>i. i < num_chunks 16777216 (length content) \<Longrightarrow>
      served encM decM fs4 seeder fileID (int i) (block 16777216 content i)"
  shows "\<exists>d. (dl_step sortSlice (md_ChunkSize meta) (\<lambda>i data. served encM decM fs4 seeder fileID i data \<and>
      data = block 16777216 content (nat i)))\<^sup>*\<^sup>* d0 d \<and>
    dl_main d = Returned None \<and> dl_file d = content"
proof -
  let ?av = "\<lambda>i data. served encM decM fs4 seeder fileID i data \<and> data = block 16777216 content (nat i)"
  have bound: "int (length content) + int 16777216 < 9223372036854775808" using len by simp
  have ok: "dat_ok 16777216 (num_chunks 16777216 (length content)) (length content) (block 16777216 content)"
    by (rule blocks_dat_ok [OF _ refl bound]) simp
  have av': "?av (int i) (block 16777216 content i)" if "i < num_chunks 16777216 (length content)" for i
    using av [OF that] by simp
  obtain d where d: "(dl_step sortSlice (int 16777216) ?av)\<^sup>*\<^sup>* d0 d" "dl_main d = Returned None"
    using live_finishes [where sortSlice = sortSlice and av = ?av and dat = "block 16777216 content",
        OF perm ok av' start_live [OF start n(1) peers]] by blast
  have "dl_file d = content"
  proof (rule finished_download [OF start, of 16777216 content sortSlice, OF _ n(2,1) bound perm _ d(2)])
    show "(dl_step sortSlice (md_ChunkSize meta) (\<lambda>i data. data = block 16777216 content (nat i)))\<^sup>*\<^sup>* d0 d"
      unfolding n(2) by (rule dl_steps_mono [OF _ d(1)]) simp
  qed simp
  with d show ?thesis unfolding n(2) by blast
qed

text \<open>
  C7: A shared file can be downloaded. In the same setting, if the downloader has a connected
  peer when its main loop begins, the seeder has sent fewer than five requests of its own, and
  the chunks can be encoded, then there is a run in which \<^verbatim>\<open>DownloadFile\<close> returns without an error
  and the output file is the shared content, every chunk being what the seeder serves.
\<close>

theorem shared_file_downloadable:
  assumes "ShareFile fl enc env post path fs s = Return (fs', s', sent, None)" and "fs path = Some content"
    and "\<And>j. \<exists>cap \<ge> 16777216. read_plan fl path j = ReadSome cap" and "length content < 2 ^ 62"
    and "fileID = calculateHash content" and "a \<in> set sent" and "fileIndex t fileID = None"
    and "t' = fst (HandleAnnounce ''POST'' (Some a) now1 now2 t)"
    and "\<And>info. HandleGetMetadata fileID t' = JsonFileInfo info \<Longrightarrow> decJ (encJ (JsonFileInfo info)) = Inr info"
    and "DownloadFile_start fl2 enc2 decJ (Inr (http_reply encJ (HandleGetMetadata fileID t'))) connect ord fileID fs2 s2 =
      Return (fs3, s3, Inr (meta, d0))"
    and "\<And>less xs. mset (sortSlice less xs) = mset xs" and "range_keys ord (sv_peers s3) \<noteq> []"
    and "sv_activeFiles seeder fileID = sv_activeFiles s' fileID" and "fs4 path = Some content"
    and "length (sv_responseHandlers seeder) < 5"
    and "\<And>i. i < num_chunks 16777216 (length content) \<Longrightarrow>
      \<exists>b. encM (NewChunkResponseMessage fileID (int i) (block 16777216 content i)) = Inr b \<and>
        b \<noteq> [] \<and> length b \<le> maxMessageSize \<and>
        decM b = Inr (NewChunkResponseMessage fileID (int i) (block 16777216 content i))"
  shows "\<exists>d. (dl_step sortSlice (md_ChunkSize meta) (\<lambda>i data. served encM decM fs4 seeder fileID i data \<and>
      data = block 16777216 content (nat i)))\<^sup>*\<^sup>* d0 d \<and>
    dl_main d = Returned None \<and> dl_file d = content"
proof -
  obtain m where m: "sv_activeFiles s' fileID = Some m" "meta = m\<lparr>md_OriginalPath := []\<rparr>"
    "md_OriginalPath m = path" "md_ChunkSize m = int 16777216" "md_NumChunks m = int (num_chunks 16777216 (length content))"
    using shared_start [of fl enc env post path fs s fs' s' sent content fileID a t t' now1 now2 decJ encJ, OF assms(1-10)] by blast
  have "served encM decM fs4 seeder fileID (int i) (block 16777216 content i)"
    if i: "i < num_chunks 16777216 (length content)" for i
    using assms(16) [OF i] served_available [of seeder fileID m fs4 content i encM _ decM] i m(1,3,5) assms(4,13-15) by auto
  then show ?thesis
    using seeded_run [of fl2 enc2 decJ _ connect ord fileID fs2 s2 fs3 s3 meta d0 content sortSlice, OF assms(10) _ _ assms(11,12,4)]
      m by simp
qed

text \<open>
  C16: Stopping. When the tracker processes the removal that \<^verbatim>\<open>StopSeedingFile\<close> sends, exactly this
  node's listing for this file disappears, under the address the node announces itself with; the
  node refuses chunk requests for the file. If it was the only one to share the file, a download
  asked for afterwards ends with "not available" and changes nothing.
\<close>

theorem stopped_file_unavailable:
  assumes "tracker_step\<^sup>*\<^sup>* NewTracker t" and "StopSeedingFile env post f s = (s', Some rm, err)" and "f \<noteq> []"
    and "t' = fst (HandleRemove ''POST'' (Some rm) t)"
  shows "getPeerAddress (fst env) (snd env) (so_ListenAddr (sv_opts s)) = Inr (rm_PeerAddr rm) \<and>
    shares t' = shares t - {(f, rm_PeerAddr rm)} \<and>
    (\<exists>e. handleChunkRequest enc fls fs wr \<lparr>rq_FileID = f, rq_Chunk = i\<rparr> s' = Return ([], Some e)) \<and>
    ((\<forall>p. (f, p) \<in> shares t \<longrightarrow> p = rm_PeerAddr rm) \<longrightarrow>
      DownloadFile_start fl enc2 decJ (Inr (http_reply encJ (HandleGetMetadata f t'))) connect ord f fs2 s2 =
        Return (fs2, s2, Inl (Errorf (''file '' @ f @ '' is not available for download''))))"
proof -
  have rm: "rm_FileID rm = f" "getPeerAddress (fst env) (snd env) (so_ListenAddr (sv_opts s)) = Inr (rm_PeerAddr rm)"
    "sv_activeFiles s' f = None"
    using assms(2) by (auto simp: StopSeedingFile_def Let_def split: sum.splits http_result.splits if_splits)
  have inv: "tracker_inv t'" and sh: "shares t' = shares t - {(f, rm_PeerAddr rm)}"
    using HandleRemove_refines [OF tracker_system.reachable_inv [OF refl assms(1)] assms(4)] rm(1)
    by (simp_all add: abs_tracker_def)
  have "HandleGetMetadata f t' = HttpError 404 ''File not found''" if "\<forall>p. (f, p) \<in> shares t \<longrightarrow> p = rm_PeerAddr rm"
  proof -
    have "listed (entry t' f) = {}" using that sh by (auto simp: shares_listed)
    then show ?thesis
      using tracker_inv_entry [OF inv, of f] assms(3)
      by (auto simp: HandleGetMetadata_def entry_def entry_ok_def listed_def split: option.splits)
  qed
  then show ?thesis
    using rm sh by (auto simp: handleChunkRequest_def http_reply_def DownloadFile_start_def)
qed

subsection \<open>An example run\<close>

text \<open>
  A node with a tracker shares a file of three bytes; the tracker is fresh; a second node, which
  reaches one peer, starts the download.
\<close>

definition example_published :: Tracker where
  "example_published = fst (HandleAnnounce ''POST'' (Some example_announced) 5 7 NewTracker)"

lemma example_info_ex:
  "\<exists>info. HandleGetMetadata example_hash example_published = JsonFileInfo info \<and>
    info_to_meta info = example_shared\<lparr>md_OriginalPath := []\<rparr> \<and> fi_NumPeers info = 1"
  using announced_metadata [of example_announced example_hash "''8.8.4.4:3000|10.0.0.2:3000''" example_shared NewTracker
      example_published 5 7] example_hash_nonempty
  by (simp add: example_announced_def example_shared_def shared_metadata_def NewTracker_def example_published_def)

abbreviation example_dl :: "FileInfo \<Rightarrow> (filesystem \<times> FileServer \<times> (go_error + Metadata \<times> download)) outcome" where
  "example_dl info \<equiv> DownloadFile_start no_faults (\<lambda>_. [1]) (\<lambda>_. Inr info)
     (Inr (http_reply (\<lambda>_. []) (HandleGetMetadata example_hash example_published)))
     connect_one [''10.0.0.2:3000''] example_hash Map.empty (fst (makeServer '':3001'' []))"

abbreviation example_received :: Metadata where
  "example_received \<equiv> example_shared\<lparr>md_OriginalPath := []\<rparr>"

lemma example_download_start:
  assumes "HandleGetMetadata example_hash example_published = JsonFileInfo info"
    and "info_to_meta info = example_received" and "fi_NumPeers info = 1"
  shows "\<exists>fs1 d0. example_dl info =
    Return (fs1, connect_one (fst (makeServer '':3001'' [])), Inr (example_received, d0))"
proof -
  have "fi_NumChunks info = 1" "fi_ChunkHashes info = [example_hash]"
    using assms(2) by (simp_all add: info_to_meta_def example_shared_def shared_metadata_def)
  with DownloadFile_start_ok [of 200 "\<lambda>_. Inr info" "[]" info no_faults "fst (makeServer '':3001'' [])" example_hash
      "\<lambda>_. [1]" connect_one "[''10.0.0.2:3000'']" Map.empty] assms
  show ?thesis by (simp add: http_reply_def no_faults_def)
qed

text \<open>A codec for the one chunk of the example.\<close>

definition example_encM :: "Message \<Rightarrow> go_error + bytes" where
  "example_encM msg =
     (case msg_Payload msg of
        ChunkResponse r \<Rightarrow> if rs_Chunk r = 0 then Inr [9] else Inl (Errorf [])
      | _ \<Rightarrow> Inl (Errorf []))"

definition example_decM :: "bytes \<Rightarrow> go_error + Message" where
  "example_decM b = Inr (NewChunkResponseMessage example_hash 0 (block 16777216 [1, 2, 3] 0))"

lemma example_codec:
  "example_encM (NewChunkResponseMessage example_hash (int i) (block 16777216 [1, 2, 3] i)) = Inr b \<Longrightarrow>
     b \<noteq> [] \<and> length b \<le> maxMessageSize \<and>
     example_decM b = Inr (NewChunkResponseMessage example_hash (int i) (block 16777216 [1, 2, 3] i))"
  by (auto simp: example_encM_def example_decM_def NewChunkResponseMessage_def maxMessageSize_def split: if_splits)

abbreviation example_seeding :: FileServer where
  "example_seeding \<equiv> example_node\<lparr>sv_activeFiles := [example_hash \<mapsto> example_shared]\<rparr>"

lemma example_peers: "range_keys [''10.0.0.2:3000''] (sv_peers (connect_one (fst (makeServer '':3001'' [])))) \<noteq> []"
  by (simp add: connect_one_peers range_keys_def)

lemma example_full_reads: "\<exists>cap \<ge> 16777216. read_plan no_faults ''a'' j = ReadSome cap"
  by (simp add: no_faults_def)

lemma example_encodes:
  "i < num_chunks 16777216 (length [1, 2, 3 :: byte]) \<Longrightarrow>
     \<exists>b. example_encM (NewChunkResponseMessage example_hash (int i) (block 16777216 [1, 2, 3] i)) = Inr b \<and>
       b \<noteq> [] \<and> length b \<le> maxMessageSize \<and>
       example_decM b = Inr (NewChunkResponseMessage example_hash (int i) (block 16777216 [1, 2, 3] i))"
  by (simp add: num_chunks_def example_encM_def example_decM_def NewChunkResponseMessage_def maxMessageSize_def)

abbreviation example_serves :: "int \<Rightarrow> bytes \<Rightarrow> bool" where
  "example_serves \<equiv> served example_encM example_decM [''a'' \<mapsto> [1, 2, 3]] example_seeding example_hash"

lemma example_started:
  "\<exists>info fs1 d0. HandleGetMetadata example_hash example_published = JsonFileInfo info \<and>
    example_dl info = Return (fs1, connect_one (fst (makeServer '':3001'' [])), Inr (example_received, d0))"
  using example_info_ex example_download_start by blast

lemma example_node_simps:
  "fileIndex NewTracker f = None" "sv_responseHandlers example_node = []"
  by (simp_all add: NewTracker_def example_node_def SetTrackerAddress_def makeServer_def Let_def)

theorem shared_file_downloadable_witness:
  "\<exists>info fs1 s1 d0 d. example_dl info = Return (fs1, s1, Inr (example_received, d0)) \<and>
    (dl_step prio_sort (md_ChunkSize example_received)
      (\<lambda>i data. example_serves i data \<and> data = block 16777216 [1, 2, 3] (nat i)))\<^sup>*\<^sup>* d0 d \<and>
    dl_main d = Returned None \<and> dl_file d = [1, 2, 3]"
proof -
  obtain fs' where share: "ShareFile no_faults (\<lambda>_. [1]) example_env (\<lambda>_. Status 200 []) ''a'' [''a'' \<mapsto> [1, 2, 3]] example_node =
      Return (fs', example_seeding, [example_announced], None)" using example_share by blast
  obtain info fs1 d0 where info: "HandleGetMetadata example_hash example_published = JsonFileInfo info"
    and start: "example_dl info = Return (fs1, connect_one (fst (makeServer '':3001'' [])), Inr (example_received, d0))"
    using example_started by blast
  have "\<exists>d. (dl_step prio_sort (md_ChunkSize example_received)
      (\<lambda>i data. example_serves i data \<and> data = block 16777216 [1, 2, 3] (nat i)))\<^sup>*\<^sup>* d0 d \<and>
      dl_main d = Returned None \<and> dl_file d = [1, 2, 3]"
    by (rule shared_file_downloadable [where sortSlice = prio_sort and encM = example_encM and decM = example_decM
        and encJ = "\<lambda>_. []" and t = NewTracker and a = example_announced and ?now1.0 = 5 and ?now2.0 = 7,
        OF share _ example_full_reads _ example_hash_def _ _ example_published_def _ start mset_prio_sort example_peers
          _ _ _ example_encodes])
      (use info in \<open>simp_all add: example_node_simps\<close>)
  with start show ?thesis by (elim exE) (intro exI conjI, assumption, auto)
qed

theorem share_then_download_witness:
  "\<exists>info fs1 s1 d0 d. example_dl info = Return (fs1, s1, Inr (example_received, d0)) \<and>
    (dl_step prio_sort (md_ChunkSize example_received) example_serves)\<^sup>*\<^sup>* d0 d \<and>
    dl_main d = Returned None \<and> calculateHash (dl_file d) = example_hash"
proof -
  obtain fs' where share: "ShareFile no_faults (\<lambda>_. [1]) example_env (\<lambda>_. Status 200 []) ''a'' [''a'' \<mapsto> [1, 2, 3]] example_node =
      Return (fs', example_seeding, [example_announced], None)" using example_share by blast
  obtain info fs1 d0 where info: "HandleGetMetadata example_hash example_published = JsonFileInfo info"
    and start: "example_dl info = Return (fs1, connect_one (fst (makeServer '':3001'' [])), Inr (example_received, d0))"
    using example_started by blast
  have served: "example_serves (int i) (block 16777216 [1, 2, 3] i)" if "i < num_chunks 16777216 (length [1, 2, 3 :: byte])" for i
    using that example_encodes [OF that]
      served_available [of example_seeding example_hash example_shared "[''a'' \<mapsto> [1, 2, 3]]" "[1, 2, 3]" i example_encM _ example_decM]
    by (auto simp: example_node_simps example_shared_def shared_metadata_def num_chunks_def)
  obtain d where d: "(dl_step prio_sort (md_ChunkSize example_received)
      (\<lambda>i data. example_serves i data \<and> data = block 16777216 [1, 2, 3] (nat i)))\<^sup>*\<^sup>* d0 d" "dl_main d = Returned None"
    using seeded_run [where sortSlice = prio_sort and content = "[1, 2, 3]" and encM = example_encM and decM = example_decM,
        OF start _ _ mset_prio_sort example_peers _ served]
    by (auto simp: example_shared_def shared_metadata_def num_chunks_def ChunkSize_def)
  have run: "(dl_step prio_sort (md_ChunkSize example_received) example_serves)\<^sup>*\<^sup>* d0 d"
    by (rule dl_steps_mono [OF _ d(1)]) simp
  have "(\<exists>m. sv_activeFiles example_seeding example_hash = Some m \<and> example_received = m\<lparr>md_OriginalPath := []\<rparr>) \<and>
      dl_file d = [1, 2, 3] \<and> calculateHash (dl_file d) = example_hash"
    by (rule share_then_download [where sortSlice = prio_sort and encM = example_encM and decM = example_decM
        and encJ = "\<lambda>_. []" and t = NewTracker and a = example_announced and ?now1.0 = 5 and ?now2.0 = 7,
        OF share _ example_full_reads _ example_hash_def _ _ example_published_def _ start mset_prio_sort
          _ _ example_codec run d(2)])
      (use info in \<open>simp_all add: example_node_simps\<close>)
  with start run d(2) show ?thesis by blast
qed

text \<open>The same node takes its file back.\<close>

theorem stopped_file_unavailable_witness:
  "\<exists>s' rm. StopSeedingFile example_env (Status 200 []) example_hash example_seeding = (s', Some rm, None) \<and>
    shares (fst (HandleRemove ''POST'' (Some rm) example_published)) =
      shares example_published - {(example_hash, ''8.8.4.4:3000|10.0.0.2:3000'')}"
proof -
  have "tracker_step NewTracker example_published"
    using tracker_step.intros [of "Announce ''POST'' (Some example_announced) 5 7" NewTracker] by (simp add: example_published_def)
  then have reach: "tracker_step\<^sup>*\<^sup>* NewTracker example_published" by blast
  let ?rm = "\<lparr>rm_FileID = example_hash, rm_PeerAddr = ''8.8.4.4:3000|10.0.0.2:3000''\<rparr>"
  have stop: "StopSeedingFile example_env (Status 200 []) example_hash example_seeding =
      (fst (StopSeedingFile example_env (Status 200 []) example_hash example_seeding), Some ?rm, None)"
    by (simp add: StopSeedingFile_def example_node_def SetTrackerAddress_def makeServer_def Let_def example_env_addr)
  have "shares (fst (HandleRemove ''POST'' (Some ?rm) example_published)) =
      shares example_published - {(example_hash, ''8.8.4.4:3000|10.0.0.2:3000'')}"
    using stopped_file_unavailable [OF reach stop example_hash_nonempty refl, THEN conjunct2, THEN conjunct1] by simp
  with stop show ?thesis by blast
qed

end
